theory Spec2Isabelle
  imports Main
begin

section \<open>JavaScript values used by EditMaintenanceForm.tsx\<close>

text \<open>
  The component is TypeScript that runs as JavaScript. The values it handles are
  \<^verbatim>\<open>undefined\<close>, \<^verbatim>\<open>null\<close>, numbers and strings. A number is kept in the decimal form
  over which ECMAScript specifies \<^verbatim>\<open>Number::toString\<close>: \<open>Finite neg s n\<close> is the
  number \<open>(-1)^neg * s * 10^(n - k)\<close>, where \<open>k\<close> is the number of decimal digits of
  \<open>s\<close> and \<open>s\<close> is positive and not a multiple of ten (so \<open>k\<close> is as small as
  possible). For example 45.5 is \<open>Finite False 455 2\<close> and 7 is \<open>Finite False 7 1\<close>.
  \<open>Zero\<close> stands for both zeros, which print the same.
\<close>

datatype jsnum = NaN | Zero | PosInf | NegInf | Finite bool nat int

datatype jsval = JUndefined | JNull | JNum jsnum | JStr string

datatype js_error = RangeError

fun decimal_digits :: "nat \<Rightarrow> string" where
  "decimal_digits n =
     (if n < 10 then [''0123456789'' ! n]
      else decimal_digits (n div 10) @ [''0123456789'' ! (n mod 10)])"

text \<open>\<^verbatim>\<open>Number::toString(x, 10)\<close> of ECMAScript, steps 5 to 10, for a positive finite number.\<close>

definition finite_toString :: "nat \<Rightarrow> int \<Rightarrow> string" where
  "finite_toString s n =
     (let ds = decimal_digits s; k = int (length ds) in
      if - 5 \<le> n \<and> n \<le> 21 then
        (if k \<le> n then ds @ replicate (nat (n - k)) (CHR ''0'')
         else if 0 < n then take (nat n) ds @ ''.'' @ drop (nat n) ds
         else ''0.'' @ replicate (nat (- n)) (CHR ''0'') @ ds)
      else
        (let e = (if n - 1 < 0 then ''-'' else ''+'') @ decimal_digits (nat \<bar>n - 1\<bar>) in
         if k = 1 then ds @ ''e'' @ e
         else take 1 ds @ ''.'' @ drop 1 ds @ ''e'' @ e))"

fun Number_toString :: "jsnum \<Rightarrow> string" where
  "Number_toString NaN = ''NaN''"
| "Number_toString Zero = ''0''"
| "Number_toString PosInf = ''Infinity''"
| "Number_toString NegInf = ''-Infinity''"
| "Number_toString (Finite neg s n) = (if neg then ''-'' else '''') @ finite_toString s n"

text \<open>The abstract operations \<^verbatim>\<open>ToBoolean\<close> and \<^verbatim>\<open>ToString\<close>.\<close>

fun ToBoolean :: "jsval \<Rightarrow> bool" where
  "ToBoolean JUndefined = False"
| "ToBoolean JNull = False"
| "ToBoolean (JNum x) = (x \<noteq> Zero \<and> x \<noteq> NaN)"
| "ToBoolean (JStr s) = (s \<noteq> [])"

fun ToString :: "jsval \<Rightarrow> string" where
  "ToString JUndefined = ''undefined''"
| "ToString JNull = ''null''"
| "ToString (JNum x) = Number_toString x"
| "ToString (JStr s) = s"

text \<open>\<^verbatim>\<open>a || b\<close> and \<^verbatim>\<open>v?.toString()\<close>.\<close>

definition js_or :: "jsval \<Rightarrow> jsval \<Rightarrow> jsval" where
  "js_or a b = (if ToBoolean a then a else b)"

fun opt_toString :: "jsval \<Rightarrow> jsval" where
  "opt_toString JUndefined = JUndefined"
| "opt_toString JNull = JUndefined"
| "opt_toString v = JStr (ToString v)"

text \<open>
  An optional property of a typed object: \<open>None\<close> is a property that is
  \<^verbatim>\<open>null\<close> or \<^verbatim>\<open>undefined\<close>. The component reads such properties only through
  \<^verbatim>\<open>||\<close>, \<^verbatim>\<open>? :\<close> and \<^verbatim>\<open>?.\<close>, which treat the two alike.
\<close>

fun opt_str :: "string option \<Rightarrow> jsval" where
  "opt_str None = JUndefined"
| "opt_str (Some s) = JStr s"

fun opt_num :: "jsnum option \<Rightarrow> jsval" where
  "opt_num None = JUndefined"
| "opt_num (Some x) = JNum x"

section \<open>Dates: the time value arithmetic of ECMAScript\<close>

text \<open>
  A time value is a whole number of milliseconds since 1970-01-01T00:00:00Z, or NaN
  (\<open>None\<close>). The functions below are those of the ECMAScript language specification,
  section "Time Values and Time Range" and following, under their names there.
\<close>

type_synonym time_value = "int option"

definition msPerDay :: int where
  "msPerDay = 86400000"

definition Day :: "int \<Rightarrow> int" where
  "Day t = t div msPerDay"

definition DaysInYear :: "int \<Rightarrow> int" where
  "DaysInYear y =
     (if y mod 4 \<noteq> 0 then 365
      else if y mod 100 \<noteq> 0 then 366
      else if y mod 400 \<noteq> 0 then 365
      else 366)"

definition DayFromYear :: "int \<Rightarrow> int" where
  "DayFromYear y =
     365 * (y - 1970) + (y - 1969) div 4 - (y - 1901) div 100 + (y - 1601) div 400"

text \<open>
  \<^verbatim>\<open>YearFromTime(t)\<close> is specified as the largest \<open>y\<close> with \<open>TimeFromYear y \<le> t\<close>, that
  is with \<open>DayFromYear y \<le> Day t\<close>. It is computed here from the mean length of a
  year (146097 days in 400 years) and corrected by one year where needed; lemma
  \<open>YearFromDay_bounds\<close> below proves that this is the specified year.
\<close>

definition YearFromDay :: "int \<Rightarrow> int" where
  "YearFromDay d =
     (let y = 1970 + (400 * d) div 146097 in
      if d < DayFromYear y then y - 1
      else if DayFromYear (y + 1) \<le> d then y + 1
      else y)"

definition YearFromTime :: "int \<Rightarrow> int" where
  "YearFromTime t = YearFromDay (Day t)"

definition InLeapYear :: "int \<Rightarrow> int" where
  "InLeapYear t = (if DaysInYear (YearFromTime t) = 366 then 1 else 0)"

definition DayWithinYear :: "int \<Rightarrow> int" where
  "DayWithinYear t = Day t - DayFromYear (YearFromTime t)"

definition MonthFromTime :: "int \<Rightarrow> int" where
  "MonthFromTime t =
     (let d = DayWithinYear t; l = InLeapYear t in
      if d < 31 then 0
      else if d < 59 + l then 1
      else if d < 90 + l then 2
      else if d < 120 + l then 3
      else if d < 151 + l then 4
      else if d < 181 + l then 5
      else if d < 212 + l then 6
      else if d < 243 + l then 7
      else if d < 273 + l then 8
      else if d < 304 + l then 9
      else if d < 334 + l then 10
      else 11)"

definition DateFromTime :: "int \<Rightarrow> int" where
  "DateFromTime t =
     (let d = DayWithinYear t; l = InLeapYear t; m = MonthFromTime t in
      if m = 0 then d + 1
      else if m = 1 then d - 30
      else if m = 2 then d - 58 - l
      else if m = 3 then d - 89 - l
      else if m = 4 then d - 119 - l
      else if m = 5 then d - 150 - l
      else if m = 6 then d - 180 - l
      else if m = 7 then d - 211 - l
      else if m = 8 then d - 242 - l
      else if m = 9 then d - 272 - l
      else if m = 10 then d - 303 - l
      else d - 333 - l)"

definition HourFromTime :: "int \<Rightarrow> int" where
  "HourFromTime t = (t div 3600000) mod 24"

definition MinFromTime :: "int \<Rightarrow> int" where
  "MinFromTime t = (t div 60000) mod 60"

definition SecFromTime :: "int \<Rightarrow> int" where
  "SecFromTime t = (t div 1000) mod 60"

definition msFromTime :: "int \<Rightarrow> int" where
  "msFromTime t = t mod 1000"

definition TimeClip :: "time_value \<Rightarrow> time_value" where
  "TimeClip tv =
     (case tv of
        None \<Rightarrow> None
      | Some t \<Rightarrow> if \<bar>t\<bar> > 8640000000000000 then None else Some t)"

definition zero_pad :: "nat \<Rightarrow> nat \<Rightarrow> string" where
  "zero_pad w n = replicate (w - length (decimal_digits n)) (CHR ''0'') @ decimal_digits n"

text \<open>
  The date part and the time part of \<^verbatim>\<open>Date.prototype.toISOString\<close>: a year from 0 to
  9999 prints as four digits, any other year as a sign and six digits.
\<close>

definition iso_year :: "int \<Rightarrow> string" where
  "iso_year y =
     (if 0 \<le> y \<and> y \<le> 9999 then zero_pad 4 (nat y)
      else (if y < 0 then ''-'' else ''+'') @ zero_pad 6 (nat \<bar>y\<bar>))"

definition iso_date :: "int \<Rightarrow> string" where
  "iso_date t =
     iso_year (YearFromTime t) @ ''-'' @ zero_pad 2 (nat (MonthFromTime t + 1)) @ ''-'' @
     zero_pad 2 (nat (DateFromTime t))"

definition iso_time :: "int \<Rightarrow> string" where
  "iso_time t =
     zero_pad 2 (nat (HourFromTime t)) @ '':'' @ zero_pad 2 (nat (MinFromTime t)) @ '':'' @
     zero_pad 2 (nat (SecFromTime t)) @ ''.'' @ zero_pad 3 (nat (msFromTime t))"

definition toISOString :: "time_value \<Rightarrow> js_error + string" where
  "toISOString tv =
     (case tv of
        None \<Rightarrow> Inl RangeError
      | Some t \<Rightarrow> Inr (iso_date t @ ''T'' @ iso_time t @ ''Z''))"

text \<open>
  \<^verbatim>\<open>Date.parse\<close>. ECMAScript fixes the result for its own date-time string format; the
  date-only form \<^verbatim>\<open>YYYY-MM-DD\<close> with legal element values is read here as ECMAScript
  says, as midnight UTC of that day. For every other string the result belongs to the
  JavaScript engine (other forms of the format, and whatever further formats the engine
  recognises; NaN for a string it does not recognise): it is the parameter \<open>host\<close>.
\<close>

definition digit_value :: "char \<Rightarrow> int option" where
  "digit_value c =
     map_of [(CHR ''0'', 0), (CHR ''1'', 1), (CHR ''2'', 2), (CHR ''3'', 3), (CHR ''4'', 4),
             (CHR ''5'', 5), (CHR ''6'', 6), (CHR ''7'', 7), (CHR ''8'', 8), (CHR ''9'', 9)] c"

fun digits_value :: "int \<Rightarrow> string \<Rightarrow> int option" where
  "digits_value acc [] = Some acc"
| "digits_value acc (c # cs) =
     (case digit_value c of
        None \<Rightarrow> None
      | Some d \<Rightarrow> digits_value (10 * acc + d) cs)"

definition days_in_month :: "int \<Rightarrow> int \<Rightarrow> int" where
  "days_in_month y m =
     (if m = 2 then (if DaysInYear y = 366 then 29 else 28)
      else if m = 4 \<or> m = 6 \<or> m = 9 \<or> m = 11 then 30
      else 31)"

definition parse_date_only :: "string \<Rightarrow> (int \<times> int \<times> int) option" where
  "parse_date_only s =
     (if length s = 10 \<and> s ! 4 = CHR ''-'' \<and> s ! 7 = CHR ''-'' then
        (case (digits_value 0 (take 4 s), digits_value 0 (take 2 (drop 5 s)),
               digits_value 0 (drop 8 s)) of
           (Some y, Some m, Some d) \<Rightarrow>
             if 1 \<le> m \<and> m \<le> 12 \<and> 1 \<le> d \<and> d \<le> days_in_month y m
             then Some (y, m, d) else None
         | _ \<Rightarrow> None)
      else None)"

text \<open>
  \<^verbatim>\<open>MakeDay(year, month, date)\<close> with \<open>month\<close> counted from 0, and
  \<^verbatim>\<open>MakeDate(day, time)\<close>. \<open>MonthStart l m\<close> is the day within the year on which month
  \<open>m\<close> starts; it is the table of \<open>MonthFromTime\<close>.
\<close>

definition MonthStart :: "int \<Rightarrow> int \<Rightarrow> int" where
  "MonthStart l m =
     (if m = 0 then 0
      else if m = 1 then 31
      else if m = 2 then 59 + l
      else if m = 3 then 90 + l
      else if m = 4 then 120 + l
      else if m = 5 then 151 + l
      else if m = 6 then 181 + l
      else if m = 7 then 212 + l
      else if m = 8 then 243 + l
      else if m = 9 then 273 + l
      else if m = 10 then 304 + l
      else 334 + l)"

definition MakeDay :: "int \<Rightarrow> int \<Rightarrow> int \<Rightarrow> int" where
  "MakeDay year month date =
     (let ym = year + month div 12; mn = month mod 12;
          l = (if DaysInYear ym = 366 then 1 else 0)
      in DayFromYear ym + MonthStart l mn + date - 1)"

definition MakeDate :: "int \<Rightarrow> int \<Rightarrow> int" where
  "MakeDate day time = day * msPerDay + time"

definition Date_parse :: "(string \<Rightarrow> time_value) \<Rightarrow> string \<Rightarrow> time_value" where
  "Date_parse host s =
     (case parse_date_only s of
        Some (y, m, d) \<Rightarrow> Some (MakeDate (MakeDay y (m - 1) d) 0)
      | None \<Rightarrow> host s)"

text \<open>\<^verbatim>\<open>new Date(s)\<close> for a string \<open>s\<close>: the time value of the new Date object.\<close>

definition Date_new :: "(string \<Rightarrow> time_value) \<Rightarrow> string \<Rightarrow> time_value" where
  "Date_new host s = TimeClip (Date_parse host s)"

text \<open>\<^verbatim>\<open>str.split('T')[0]\<close>: the part of \<open>str\<close> before its first \<^verbatim>\<open>T\<close>, all of it if it has none.\<close>

definition split_T_0 :: "string \<Rightarrow> string" where
  "split_T_0 str = takeWhile (\<lambda>c. c \<noteq> CHR ''T'') str"

section \<open>Objects with ordered keys\<close>

text \<open>
  \<^verbatim>\<open>formData\<close> is a plain object. \<^verbatim>\<open>Object.entries\<close> and the spread \<^verbatim>\<open>{...prev}\<close>
  list its properties in the order of the object's own keys: array indices first, in
  ascending numeric order, then the other string keys in the order of their creation.
  The object is the list of its entries in that order. \<open>obj_set\<close> is the property
  definition \<^verbatim>\<open>{...prev, [name]: value}\<close> on a copy of \<open>prev\<close>: an existing key keeps
  its place and takes the new value, a new key is created.
\<close>

type_synonym obj = "(string \<times> jsval) list"

definition is_array_index :: "string \<Rightarrow> bool" where
  "is_array_index k =
     (k \<noteq> [] \<and> (k = ''0'' \<or> hd k \<noteq> CHR ''0'') \<and>
      (case digits_value 0 k of None \<Rightarrow> False | Some i \<Rightarrow> i \<le> 4294967294))"

definition index_value :: "string \<Rightarrow> int" where
  "index_value k = (case digits_value 0 k of None \<Rightarrow> 0 | Some i \<Rightarrow> i)"

fun obj_get :: "obj \<Rightarrow> string \<Rightarrow> jsval" where
  "obj_get [] k = JUndefined"
| "obj_get ((k', v) # ps) k = (if k' = k then v else obj_get ps k)"

fun obj_replace :: "string \<Rightarrow> jsval \<Rightarrow> obj \<Rightarrow> obj" where
  "obj_replace k v [] = []"
| "obj_replace k v ((k', v') # ps) =
     (if k' = k then (k, v) # ps else (k', v') # obj_replace k v ps)"

fun obj_insert_index :: "string \<Rightarrow> jsval \<Rightarrow> obj \<Rightarrow> obj" where
  "obj_insert_index k v [] = [(k, v)]"
| "obj_insert_index k v ((k', v') # ps) =
     (if is_array_index k' \<and> index_value k' < index_value k
      then (k', v') # obj_insert_index k v ps
      else (k, v) # (k', v') # ps)"

definition obj_set :: "string \<Rightarrow> jsval \<Rightarrow> obj \<Rightarrow> obj" where
  "obj_set k v ps =
     (if k \<in> set (map fst ps) then obj_replace k v ps
      else if is_array_index k then obj_insert_index k v ps
      else ps @ [(k, v)])"

section \<open>The component EditMaintenanceForm\<close>

subsection \<open>Props and state\<close>

text \<open>
  Modelled from the spec: the type \<^verbatim>\<open>MaintenanceRecord\<close> is imported from
  \<^verbatim>\<open>@/types/maintenance\<close>, which is not among the sources. The specification's data
  model gives its fields: identifier and vehicle reference (numbers, as \<^verbatim>\<open>Vehicle.id\<close>
  is in the source), service type, description, date performed, next-due date (dates
  held as strings, as in the specification's scenario), cost (a number), status,
  service provider and notes. Every field that the initialiser guards against a
  missing value is optional here. \<open>id'\<close> and \<open>notes'\<close> are the fields \<^verbatim>\<open>id\<close> and
  \<^verbatim>\<open>notes\<close>.
\<close>

record MaintenanceRecord =
  id' :: jsnum
  vehicle_id :: jsnum
  service_type :: "string option"
  description :: "string option"
  date_performed :: "string option"
  next_due_date :: "string option"
  cost :: "jsnum option"
  status :: "string option"
  service_provider :: "string option"
  notes' :: "string option"

text \<open>
  Modelled from the spec: the server action \<^verbatim>\<open>updateMaintenanceRecord\<close> is imported from
  \<^verbatim>\<open>@/app/dashboard/maintenance/actions\<close>, which is not among the sources. The
  specification gives its output as a result object with a boolean success flag and, on
  failure, an optional message string; these are the two properties the component reads,
  \<^verbatim>\<open>result.success\<close> and \<^verbatim>\<open>result.message\<close>. The awaited call either resolves to a result
  or rejects with an error; a submission takes the action's outcome as a parameter.
\<close>

record update_result =
  success :: bool
  message :: "string option"

datatype outcome = Resolved update_result | Rejected string

datatype router_call = Push string | Refresh

text \<open>
  The three \<^verbatim>\<open>useState\<close> cells of the component, and what it has done to its
  surroundings: the calls on the router, the lines written with \<^verbatim>\<open>console.error\<close>, the
  payloads passed to \<^verbatim>\<open>updateMaintenanceRecord\<close>, and how many of those calls have not
  settled yet.
\<close>

record component =
  isSubmitting :: bool
  formError :: jsval
  formData :: obj
  router_calls :: "router_call list"
  console_errors :: "(string \<times> string) list"
  update_calls :: "(string \<times> string) list list"
  pending :: nat

subsection \<open>The initial form state (source lines 28 to 39)\<close>

text \<open>
  \<^verbatim>\<open>d ? new Date(d).toISOString().split('T')[0] : ''\<close>. \<^verbatim>\<open>toISOString\<close> throws a
  RangeError on an invalid date; the exception leaves the initialiser.
\<close>

definition date_input :: "(string \<Rightarrow> time_value) \<Rightarrow> string option \<Rightarrow> js_error + jsval" where
  "date_input host d =
     (if ToBoolean (opt_str d) then
        (case toISOString (Date_new host (ToString (opt_str d))) of
           Inl e \<Rightarrow> Inl e
         | Inr str \<Rightarrow> Inr (JStr (split_T_0 str)))
      else Inr (JStr ''''))"

definition initFormData :: "(string \<Rightarrow> time_value) \<Rightarrow> MaintenanceRecord \<Rightarrow> js_error + obj" where
  "initFormData host r =
     (case date_input host (date_performed r) of
        Inl e \<Rightarrow> Inl e
      | Inr dp \<Rightarrow>
          (case date_input host (next_due_date r) of
             Inl e \<Rightarrow> Inl e
           | Inr nd \<Rightarrow>
               Inr [(''id'', JNum (id' r)),
                    (''vehicle_id'', JNum (vehicle_id r)),
                    (''service_type'', js_or (opt_str (service_type r)) (JStr '''')),
                    (''description'', js_or (opt_str (description r)) (JStr '''')),
                    (''date_performed'', dp),
                    (''next_due_date'', nd),
                    (''cost'', js_or (opt_toString (opt_num (cost r))) (JStr ''0'')),
                    (''status'', js_or (opt_str (status r)) (JStr ''scheduled'')),
                    (''service_provider'', js_or (opt_str (service_provider r)) (JStr '''')),
                    (''notes'', js_or (opt_str (notes' r)) (JStr ''''))]))"

text \<open>The component as first rendered: nothing submitted, no error, nothing done yet.\<close>

definition mount :: "(string \<Rightarrow> time_value) \<Rightarrow> MaintenanceRecord \<Rightarrow> js_error + component" where
  "mount host r =
     (case initFormData host r of
        Inl e \<Rightarrow> Inl e
      | Inr fd \<Rightarrow>
          Inr \<lparr>isSubmitting = False, formError = JNull, formData = fd, router_calls = [],
               console_errors = [], update_calls = [], pending = 0\<rparr>)"

subsection \<open>Editing a field (source lines 57 to 63)\<close>

definition handleChange :: "string \<Rightarrow> string \<Rightarrow> component \<Rightarrow> component" where
  "handleChange name val c = c\<lparr>formData := obj_set name (JStr val) (formData c)\<rparr>"

subsection \<open>Submitting (source lines 66 to 96)\<close>

text \<open>
  The loop \<^verbatim>\<open>Object.entries(formData).forEach(([key, value]) => formDataObj.append(key,
  value?.toString() || ''))\<close> over a new, empty \<^verbatim>\<open>FormData\<close>; \<^verbatim>\<open>append\<close> adds the entry
  at the end and stores the value as a string.
\<close>

definition FormData_append :: "string \<Rightarrow> jsval \<Rightarrow> (string \<times> string) list \<Rightarrow> (string \<times> string) list" where
  "FormData_append k v fd = fd @ [(k, ToString v)]"

definition build_FormData :: "obj \<Rightarrow> (string \<times> string) list" where
  "build_FormData fs =
     foldl (\<lambda>fd (k, v). FormData_append k (js_or (opt_toString v) (JStr '''')) fd) [] fs"

text \<open>
  \<^verbatim>\<open>handleSubmit\<close> is an async function. \<open>handleSubmit_begin\<close> is what it does up to the
  \<^verbatim>\<open>await\<close>: the two state updates, the payload, the call. \<open>handleSubmit_resume\<close> is
  what it does once the call has settled: the success branch, the failure branch, or
  the \<^verbatim>\<open>catch\<close> block when the call rejected. \<^verbatim>\<open>e.preventDefault()\<close> only keeps the
  browser from submitting the form itself. The calls on the router and on the console
  return; they are recorded in the order in which they are made.
\<close>

definition handleSubmit_begin :: "component \<Rightarrow> component" where
  "handleSubmit_begin c =
     c\<lparr>isSubmitting := True, formError := JNull,
       update_calls := update_calls c @ [build_FormData (formData c)],
       pending := Suc (pending c)\<rparr>"

definition handleSubmit_resume :: "outcome \<Rightarrow> component \<Rightarrow> component" where
  "handleSubmit_resume out c =
     (let c' = c\<lparr>pending := pending c - 1\<rparr> in
      case out of
        Resolved result \<Rightarrow>
          if success result then
            c'\<lparr>router_calls := router_calls c' @ [Push ''/dashboard/maintenance'', Refresh]\<rparr>
          else
            c'\<lparr>formError :=
                 js_or (opt_str (message result))
                   (JStr ''An error occurred while updating the maintenance record''),
               isSubmitting := False\<rparr>
      | Rejected err \<Rightarrow>
          c'\<lparr>console_errors := console_errors c' @ [(''Error submitting form:'', err)],
             formError := JStr ''An unexpected error occurred. Please try again.'',
             isSubmitting := False\<rparr>)"

text \<open>One whole submission, the server action being the function \<open>upd\<close>.\<close>

definition handleSubmit :: "((string \<times> string) list \<Rightarrow> outcome) \<Rightarrow> component \<Rightarrow> component" where
  "handleSubmit upd c =
     handleSubmit_resume (upd (build_FormData (formData c))) (handleSubmit_begin c)"

subsection \<open>What the user sees (source lines 100 to 113 and 290 to 296)\<close>

definition error_banner :: "component \<Rightarrow> string option" where
  "error_banner c = (if ToBoolean (formError c) then Some (ToString (formError c)) else None)"

definition submit_disabled :: "component \<Rightarrow> bool" where
  "submit_disabled c = isSubmitting c"

definition submit_label :: "component \<Rightarrow> string" where
  "submit_label c = (if isSubmitting c then ''Updating...'' else ''Update Maintenance Record'')"

subsection \<open>The component under a sequence of events\<close>

text \<open>
  What can happen to a mounted component: the user edits a control, the user activates
  the submit control (a click, or Enter in a field), or an outstanding call settles.
  A disabled submit control does not submit the form, so \<^verbatim>\<open>handleSubmit\<close> does not run
  then. An activation that the browser's own validation of the required fields turns
  down does not reach the component and is no event here.
\<close>

datatype event = Change string string | SubmitActivated | CallSettled outcome

fun step :: "component \<Rightarrow> event \<Rightarrow> component" where
  "step c (Change name val) = handleChange name val c"
| "step c SubmitActivated = (if submit_disabled c then c else handleSubmit_begin c)"
| "step c (CallSettled out) = (if pending c = 0 then c else handleSubmit_resume out c)"

definition run :: "component \<Rightarrow> event list \<Rightarrow> component" where
  "run c es = foldl step c es"

text \<open>
  The controls of the form whose \<^verbatim>\<open>onChange\<close> is \<^verbatim>\<open>handleChange\<close>, by their \<^verbatim>\<open>name\<close>
  attributes (source lines 120 to 279); there is no control named \<^verbatim>\<open>id\<close>. An event
  comes from the form when its edit, if it is one, is the edit of such a control.
\<close>

definition control_names :: "string list" where
  "control_names =
     [''vehicle_id'', ''service_type'', ''description'', ''date_performed'', ''next_due_date'',
      ''cost'', ''status'', ''service_provider'', ''notes'']"

fun from_form :: "event \<Rightarrow> bool" where
  "from_form (Change name val) = (name \<in> set control_names)"
| "from_form SubmitActivated = True"
| "from_form (CallSettled out) = True"

section \<open>The statements of the specification\<close>

subsection \<open>The display transforms of the initial form state\<close>

text \<open>
  The specification describes the initial form state by display transforms: a date is
  rendered as \<^verbatim>\<open>YYYY-MM-DD\<close> if present and as the empty string otherwise, the cost as
  its string form or \<^verbatim>\<open>"0"\<close>, the status as its value or \<^verbatim>\<open>"scheduled"\<close>, a text field
  as its value or the empty string. The definitions below follow those words. A field
  is present when it is neither missing nor the empty string. The date that a string
  denotes is the time value that \<^verbatim>\<open>new Date\<close> gives it, and its calendar date is the
  one in UTC.
\<close>

definition present :: "string option \<Rightarrow> bool" where
  "present d = (d \<noteq> None \<and> d \<noteq> Some [])"

definition YYYY_MM_DD :: "int \<Rightarrow> int \<Rightarrow> int \<Rightarrow> string" where
  "YYYY_MM_DD y m d =
     zero_pad 4 (nat y) @ ''-'' @ zero_pad 2 (nat m) @ ''-'' @ zero_pad 2 (nat d)"

definition is_YYYY_MM_DD :: "string \<Rightarrow> bool" where
  "is_YYYY_MM_DD s = (case parse_date_only s of None \<Rightarrow> False | Some ymd \<Rightarrow> True)"

definition valid_date :: "(string \<Rightarrow> time_value) \<Rightarrow> string option \<Rightarrow> bool" where
  "valid_date host d =
     (case d of
        None \<Rightarrow> True
      | Some s \<Rightarrow>
          s = [] \<or>
          (case Date_new host s of
             None \<Rightarrow> False
           | Some t \<Rightarrow> 0 \<le> YearFromTime t \<and> YearFromTime t \<le> 9999))"

definition date_display :: "(string \<Rightarrow> time_value) \<Rightarrow> string option \<Rightarrow> string" where
  "date_display host d =
     (case d of
        None \<Rightarrow> []
      | Some s \<Rightarrow>
          if s = [] then []
          else (case Date_new host s of
                  None \<Rightarrow> []
                | Some t \<Rightarrow> YYYY_MM_DD (YearFromTime t) (MonthFromTime t + 1) (DateFromTime t)))"

definition text_display :: "string option \<Rightarrow> string" where
  "text_display t = (case t of None \<Rightarrow> [] | Some s \<Rightarrow> s)"

definition cost_display :: "jsnum option \<Rightarrow> string" where
  "cost_display c = (case c of None \<Rightarrow> ''0'' | Some x \<Rightarrow> Number_toString x)"

definition status_display :: "string option \<Rightarrow> string" where
  "status_display st =
     (case st of None \<Rightarrow> ''scheduled'' | Some s \<Rightarrow> if s = [] then ''scheduled'' else s)"

definition is_display_string :: "jsval \<Rightarrow> bool" where
  "is_display_string v = (case v of JStr s \<Rightarrow> True | _ \<Rightarrow> False)"

text \<open>
  The representation of the form state. An ISO calendar string without time is a
  calendar date of ISO 8601 and nothing more: \<^verbatim>\<open>YYYY-MM-DD\<close>, or for a year outside 0 to
  9999 a sign, six digits of year, and \<^verbatim>\<open>-MM-DD\<close>, with a legal month and a legal day of
  that month. \<open>calendar_string\<close> is the calendar string of a date field: empty if the
  field is absent, and the UTC calendar date of its time value otherwise. \<open>last_edit k es\<close>
  is the value of the last edit of the field \<open>k\<close> among the events \<open>es\<close>, if there is one.
\<close>

definition parse_calendar_date :: "string \<Rightarrow> (int \<times> int \<times> int) option" where
  "parse_calendar_date s =
     (case parse_date_only s of
        Some ymd \<Rightarrow> Some ymd
      | None \<Rightarrow>
          if length s = 13 \<and> (s ! 0 = CHR ''+'' \<or> s ! 0 = CHR ''-'') \<and>
             s ! 7 = CHR ''-'' \<and> s ! 10 = CHR ''-'' then
            (case (digits_value 0 (take 6 (drop 1 s)), digits_value 0 (take 2 (drop 8 s)),
                   digits_value 0 (drop 11 s)) of
               (Some a, Some m, Some d) \<Rightarrow>
                 (let y = (if s ! 0 = CHR ''-'' then - a else a) in
                  if (y < 0 \<or> 9999 < y) \<and> 1 \<le> m \<and> m \<le> 12 \<and> 1 \<le> d \<and>
                     d \<le> days_in_month y m
                  then Some (y, m, d) else None)
             | _ \<Rightarrow> None)
          else None)"

definition is_ISO_calendar_date :: "string \<Rightarrow> bool" where
  "is_ISO_calendar_date s = (case parse_calendar_date s of None \<Rightarrow> False | Some ymd \<Rightarrow> True)"

definition calendar_string :: "(string \<Rightarrow> time_value) \<Rightarrow> string option \<Rightarrow> string" where
  "calendar_string host d =
     (case d of
        None \<Rightarrow> []
      | Some s \<Rightarrow>
          if s = [] then []
          else (case Date_new host s of None \<Rightarrow> [] | Some t \<Rightarrow> iso_date t))"

fun last_edit :: "string \<Rightarrow> event list \<Rightarrow> string option" where
  "last_edit k [] = None"
| "last_edit k (Change name val # es) =
     (case last_edit k es of
        Some v \<Rightarrow> Some v
      | None \<Rightarrow> if name = k then Some val else None)"
| "last_edit k (e # es) = last_edit k es"

subsection \<open>The payload and the outcome of a submission\<close>

text \<open>
  The ten keys of the payload, the string coercion of the specification ("its string
  form, empty string if null/undefined"), and a submission that ends in failure: an
  explicit failure result or a thrown error.
\<close>

definition form_fields :: "string list" where
  "form_fields =
     [''id'', ''vehicle_id'', ''service_type'', ''description'', ''date_performed'',
      ''next_due_date'', ''cost'', ''status'', ''service_provider'', ''notes'']"

definition string_coercion :: "jsval \<Rightarrow> string" where
  "string_coercion v = (if v = JNull \<or> v = JUndefined then [] else ToString v)"

definition failed :: "outcome \<Rightarrow> bool" where
  "failed out = (case out of Resolved res \<Rightarrow> \<not> success res | Rejected err \<Rightarrow> True)"

subsection \<open>The scenarios of the specification\<close>

text \<open>
  The record of the specification's scenario, \<^verbatim>\<open>{id: 7, vehicle_id: 3, service_type:
  "Oil Change", next_due_date: "2024-05-01", cost: 45.5, status: "completed"}\<close>, the form
  state and the component it gives, and the server actions of the scenarios. \<open>strict_host\<close>
  is an engine whose \<^verbatim>\<open>Date.parse\<close> recognises no string beyond those the model reads
  itself.
\<close>

definition strict_host :: "string \<Rightarrow> time_value" where
  "strict_host s = None"

definition scenario_record :: MaintenanceRecord where
  "scenario_record =
     \<lparr>id' = Finite False 7 1, vehicle_id = Finite False 3 1,
      service_type = Some ''Oil Change'', description = None, date_performed = None,
      next_due_date = Some ''2024-05-01'', cost = Some (Finite False 455 2),
      status = Some ''completed'', service_provider = None, notes' = None\<rparr>"

definition scenario_form :: obj where
  "scenario_form =
     [(''id'', JNum (Finite False 7 1)),
      (''vehicle_id'', JNum (Finite False 3 1)),
      (''service_type'', JStr ''Oil Change''),
      (''description'', JStr []),
      (''date_performed'', JStr []),
      (''next_due_date'', JStr ''2024-05-01''),
      (''cost'', JStr ''45.5''),
      (''status'', JStr ''completed''),
      (''service_provider'', JStr []),
      (''notes'', JStr [])]"

definition scenario_component :: component where
  "scenario_component =
     \<lparr>isSubmitting = False, formError = JNull, formData = scenario_form, router_calls = [],
      console_errors = [], update_calls = [], pending = 0\<rparr>"

definition update_succeeds :: "(string \<times> string) list \<Rightarrow> outcome" where
  "update_succeeds p = Resolved \<lparr>success = True, message = None\<rparr>"

definition update_not_found :: "(string \<times> string) list \<Rightarrow> outcome" where
  "update_not_found p = Resolved \<lparr>success = False, message = Some ''Vehicle not found''\<rparr>"

definition update_no_message :: "(string \<times> string) list \<Rightarrow> outcome" where
  "update_no_message p = Resolved \<lparr>success = False, message = None\<rparr>"

definition update_empty_message :: "(string \<times> string) list \<Rightarrow> outcome" where
  "update_empty_message p = Resolved \<lparr>success = False, message = Some []\<rparr>"

definition update_throws :: "(string \<times> string) list \<Rightarrow> outcome" where
  "update_throws p = Rejected ''Failed to fetch''"

section \<open>Properties of the model\<close>

subsection \<open>Years and days\<close>

lemma div_lo: "0 < n \<Longrightarrow> n * (a div n) \<le> (a::int)"
  using mult_div_mod_eq [of n a] pos_mod_sign [of n a] by linarith

lemma div_hi: "0 < n \<Longrightarrow> (a::int) < n * (a div n) + n"
  using mult_div_mod_eq [of n a] pos_mod_bound [of n a] by linarith

lemma div_succ:
  fixes x n :: int
  assumes "0 < n"
  shows "(x + 1) div n = x div n + (if (x + 1) mod n = 0 then 1 else 0)"
proof (cases "x mod n = n - 1")
  case True
  have "x + 1 = n * (x div n + 1) + 0"
    using mult_div_mod_eq [of n x] True by (simp add: algebra_simps)
  then have "(x + 1) div n = x div n + 1" "(x + 1) mod n = 0"
    using assms int_div_pos_eq [of "x + 1" n "x div n + 1" 0]
      int_mod_pos_eq [of "x + 1" n "x div n + 1" 0] by simp_all
  then show ?thesis by simp
next
  case False
  have r: "0 < x mod n + 1" "x mod n + 1 < n"
    using assms False pos_mod_sign [of n x] pos_mod_bound [of n x] by linarith+
  have "x + 1 = n * (x div n) + (x mod n + 1)"
    using mult_div_mod_eq [of n x] by simp
  then have "(x + 1) div n = x div n" "(x + 1) mod n = x mod n + 1"
    using r assms int_div_pos_eq [of "x + 1" n "x div n" "x mod n + 1"]
      int_mod_pos_eq [of "x + 1" n "x div n" "x mod n + 1"] by simp_all
  then show ?thesis using r by simp
qed

lemma DayFromYear_step: "DayFromYear (y + 1) = DayFromYear y + DaysInYear y"
proof -
  have m4: "(y - 1969 + 1) mod 4 = y mod 4"
    using mod_mult_self2 [of y 4 "- 492"] by simp
  have m100: "(y - 1901 + 1) mod 100 = y mod 100"
    using mod_mult_self2 [of y 100 "- 19"] by simp
  have m400: "(y - 1601 + 1) mod 400 = y mod 400"
    using mod_mult_self2 [of y 400 "- 4"] by simp
  have d4: "(y + 1 - 1969) div 4 = (y - 1969) div 4 + (if y mod 4 = 0 then 1 else 0)"
    using div_succ [of 4 "y - 1969"] m4 by (simp add: algebra_simps)
  have d100: "(y + 1 - 1901) div 100 = (y - 1901) div 100 + (if y mod 100 = 0 then 1 else 0)"
    using div_succ [of 100 "y - 1901"] m100 by (simp add: algebra_simps)
  have d400: "(y + 1 - 1601) div 400 = (y - 1601) div 400 + (if y mod 400 = 0 then 1 else 0)"
    using div_succ [of 400 "y - 1601"] m400 by (simp add: algebra_simps)
  have i1: "y mod 100 = 0 \<Longrightarrow> y mod 4 = 0"
    using mod_mod_cancel [of 4 100 y] by simp
  have i2: "y mod 400 = 0 \<Longrightarrow> y mod 100 = 0"
    using mod_mod_cancel [of 100 400 y] by simp
  show ?thesis
    unfolding DayFromYear_def DaysInYear_def d4 d100 d400
    using i1 i2 by auto
qed

lemma DayFromYear_est_lo: "DayFromYear (1970 + (400 * d) div 146097 - 1) \<le> d"
proof -
  define k where "k = (400 * d) div 146097"
  define a where "a = k div 4"
  define b where "b = (k + 68) div 100"
  define c where "c = (k + 368) div 400"
  have k: "146097 * k \<le> 400 * d"
    unfolding k_def by (rule div_lo) simp
  have a: "4 * a \<le> k"
    unfolding a_def by (rule div_lo) simp
  have b: "k + 68 < 100 * b + 100"
    unfolding b_def by (rule div_hi) simp
  have c: "400 * c \<le> k + 368"
    unfolding c_def by (rule div_lo) simp
  have "DayFromYear (1970 + k - 1) = 365 * k - 365 + a - b + c"
    by (simp add: DayFromYear_def a_def b_def c_def add.commute)
  moreover have "365 * k - 365 + a - b + c \<le> d"
    using k a b c by linarith
  ultimately show ?thesis
    by (simp add: k_def)
qed

lemma DayFromYear_est_hi: "d < DayFromYear (1970 + (400 * d) div 146097 + 2)"
proof -
  define k where "k = (400 * d) div 146097"
  define a where "a = (k + 3) div 4"
  define b where "b = (k + 71) div 100"
  define c where "c = (k + 371) div 400"
  have k: "400 * d < 146097 * k + 146097"
    unfolding k_def by (rule div_hi) simp
  have a: "k + 3 < 4 * a + 4"
    unfolding a_def by (rule div_hi) simp
  have b: "100 * b \<le> k + 71"
    unfolding b_def by (rule div_lo) simp
  have c: "k + 371 < 400 * c + 400"
    unfolding c_def by (rule div_hi) simp
  have "DayFromYear (1970 + k + 2) = 365 * k + 730 + a - b + c"
    by (simp add: DayFromYear_def a_def b_def c_def add.commute)
  moreover have "d < 365 * k + 730 + a - b + c"
    using k a b c by linarith
  ultimately show ?thesis
    by (simp add: k_def)
qed

lemma YearFromDay_bounds:
  "DayFromYear (YearFromDay d) \<le> d \<and> d < DayFromYear (YearFromDay d + 1)"
proof -
  define y where "y = 1970 + (400 * d) div 146097"
  have lo: "DayFromYear (y - 1) \<le> d"
    unfolding y_def by (rule DayFromYear_est_lo)
  have hi: "d < DayFromYear (y + 1 + 1)"
    using DayFromYear_est_hi [of d] by (simp add: y_def)
  have Y: "YearFromDay d =
      (if d < DayFromYear y then y - 1 else if DayFromYear (y + 1) \<le> d then y + 1 else y)"
    by (simp add: YearFromDay_def y_def)
  show ?thesis
  proof (cases "d < DayFromYear y")
    case True
    then show ?thesis using lo Y by simp
  next
    case False
    then show ?thesis using hi Y by simp
  qed
qed


lemma DaysInYear_cases: "DaysInYear y = 365 \<or> DaysInYear y = 366"
  by (simp add: DaysInYear_def)

lemma DayFromYear_mono: "y \<le> y' \<Longrightarrow> DayFromYear y \<le> DayFromYear y'"
proof (induction "nat (y' - y)" arbitrary: y')
  case 0
  then show ?case by simp
next
  case (Suc n)
  then have "n = nat (y' - 1 - y)" "y \<le> y' - 1" by linarith+
  then have "DayFromYear y \<le> DayFromYear (y' - 1)" using Suc.hyps(1) by blast
  moreover have "DayFromYear (y' - 1) \<le> DayFromYear y'"
    using DayFromYear_step [of "y' - 1"] DaysInYear_cases [of "y' - 1"] by auto
  ultimately show ?case by linarith
qed

lemma YearFromDay_unique:
  assumes "DayFromYear y \<le> d" "d < DayFromYear (y + 1)"
  shows "YearFromDay d = y"
proof (rule ccontr)
  assume ne: "YearFromDay d \<noteq> y"
  have b: "DayFromYear (YearFromDay d) \<le> d" "d < DayFromYear (YearFromDay d + 1)"
    using YearFromDay_bounds [of d] by simp_all
  show False
  proof (cases "YearFromDay d < y")
    case True
    then have "DayFromYear (YearFromDay d + 1) \<le> DayFromYear y"
      by (intro DayFromYear_mono) simp
    then show False using assms b by linarith
  next
    case False
    then have "DayFromYear (y + 1) \<le> DayFromYear (YearFromDay d)"
      using ne by (intro DayFromYear_mono) simp
    then show False using assms b by linarith
  qed
qed

lemma DayWithinYear_bounds:
  "0 \<le> DayWithinYear t \<and> DayWithinYear t < DaysInYear (YearFromTime t)"
  using YearFromDay_bounds [of "Day t"] DayFromYear_step [of "YearFromTime t"]
  by (simp add: DayWithinYear_def YearFromTime_def)

lemma MonthFromTime_bounds: "0 \<le> MonthFromTime t \<and> MonthFromTime t \<le> 11"
  by (simp add: MonthFromTime_def Let_def)

lemma DateFromTime_bounds: "1 \<le> DateFromTime t \<and> DateFromTime t \<le> 31"
proof -
  have "0 \<le> DayWithinYear t" "DayWithinYear t < 365 + InLeapYear t"
    using DayWithinYear_bounds [of t] DaysInYear_cases [of "YearFromTime t"]
    by (auto simp add: InLeapYear_def)
  moreover have "InLeapYear t = 0 \<or> InLeapYear t = 1"
    by (simp add: InLeapYear_def)
  ultimately show ?thesis
    unfolding DateFromTime_def MonthFromTime_def Let_def by auto
qed

subsection \<open>Decimal digits\<close>

declare decimal_digits.simps [simp del]

lemma digit_char_mem: "n < 10 \<Longrightarrow> ''0123456789'' ! n \<in> set ''0123456789''"
  by (rule nth_mem) simp

lemma digit_value_nth: "n < 10 \<Longrightarrow> digit_value (''0123456789'' ! n) = Some (int n)"
proof -
  assume "n < 10"
  then have "n \<in> {0, 1, 2, 3, 4, 5, 6, 7, 8, 9}" by auto
  then show ?thesis by (auto simp add: digit_value_def)
qed

lemma set_decimal_digits: "set (decimal_digits n) \<subseteq> set ''0123456789''"
proof (induction n rule: decimal_digits.induct)
  case (1 n)
  show ?case
  proof (cases "n < 10")
    case True
    then show ?thesis
      using digit_char_mem [of n] by (subst decimal_digits.simps) simp
  next
    case False
    then show ?thesis
      using 1 digit_char_mem [of "n mod 10"] by (subst decimal_digits.simps) simp
  qed
qed

lemma decimal_digits_not_Nil: "decimal_digits n \<noteq> []"
  by (subst decimal_digits.simps) simp

lemma length_decimal_digits: "n < 10 ^ w \<Longrightarrow> 0 < w \<Longrightarrow> length (decimal_digits n) \<le> w"
proof (induction n arbitrary: w rule: decimal_digits.induct)
  case (1 n)
  show ?case
  proof (cases "n < 10")
    case True
    then show ?thesis using "1.prems" by (subst decimal_digits.simps) simp
  next
    case False
    obtain v where w: "w = Suc v" using "1.prems" by (cases w) auto
    have "v \<noteq> 0" using False "1.prems" w by (cases v) auto
    moreover have "n div 10 < 10 ^ v" using "1.prems" w by (simp add: less_mult_imp_div_less)
    ultimately have "length (decimal_digits (n div 10)) \<le> v"
      using "1.IH" [of v] False by simp
    then show ?thesis using False w by (subst decimal_digits.simps) simp
  qed
qed

lemma digits_value_append:
  "digits_value acc (xs @ ys) =
     (case digits_value acc xs of None \<Rightarrow> None | Some a \<Rightarrow> digits_value a ys)"
  by (induction xs arbitrary: acc) (auto split: option.splits)

lemma digits_value_decimal_digits:
  "digits_value acc (decimal_digits n) = Some (acc * 10 ^ length (decimal_digits n) + int n)"
proof (induction n arbitrary: acc rule: decimal_digits.induct)
  case (1 n)
  show ?case
  proof (cases "n < 10")
    case True
    then show ?thesis
      using digit_value_nth [of n] by (subst (1 2) decimal_digits.simps) simp
  next
    case False
    have "digits_value acc (decimal_digits (n div 10)) =
        Some (acc * 10 ^ length (decimal_digits (n div 10)) + int (n div 10))"
      using 1 False by simp
    moreover have "int n = 10 * int (n div 10) + int (n mod 10)"
      by presburger
    ultimately show ?thesis
      using False digit_value_nth [of "n mod 10"]
      by (subst (1 2) decimal_digits.simps) (simp add: digits_value_append algebra_simps)
  qed
qed

lemma digits_value_zeros: "digits_value 0 (replicate k (CHR ''0'') @ xs) = digits_value 0 xs"
  by (induction k) (simp_all add: digit_value_def)

lemma digits_value_zero_pad: "digits_value 0 (zero_pad w n) = Some (int n)"
  by (simp add: zero_pad_def digits_value_zeros digits_value_decimal_digits)

lemma length_zero_pad: "n < 10 ^ w \<Longrightarrow> 0 < w \<Longrightarrow> length (zero_pad w n) = w"
  using length_decimal_digits [of n w] by (simp add: zero_pad_def)

lemma set_zero_pad: "set (zero_pad w n) \<subseteq> set ''0123456789''"
  using set_decimal_digits [of n] by (auto simp add: zero_pad_def)


subsection \<open>Rendering and reading a calendar date\<close>

lemma parse_YYYY_MM_DD:
  assumes "0 \<le> y" "y \<le> 9999" "1 \<le> m" "m \<le> 12" "1 \<le> d" "d \<le> days_in_month y m"
  shows "parse_date_only (YYYY_MM_DD y m d) = Some (y, m, d)"
proof -
  have d31: "d \<le> 31" using assms(6) by (simp add: days_in_month_def split: if_splits)
  define ys where "ys = zero_pad 4 (nat y)"
  define ms where "ms = zero_pad 2 (nat m)"
  define ds where "ds = zero_pad 2 (nat d)"
  have ly: "length ys = 4" unfolding ys_def using assms by (intro length_zero_pad) auto
  have lm: "length ms = 2" unfolding ms_def using assms by (intro length_zero_pad) auto
  have ld: "length ds = 2" unfolding ds_def using assms d31 by (intro length_zero_pad) auto
  have s: "YYYY_MM_DD y m d = ys @ CHR ''-'' # ms @ CHR ''-'' # ds"
    by (simp add: YYYY_MM_DD_def ys_def ms_def ds_def)
  have vy: "digits_value 0 ys = Some y" using assms by (simp add: ys_def digits_value_zero_pad)
  have vm: "digits_value 0 ms = Some m" using assms by (simp add: ms_def digits_value_zero_pad)
  have vd: "digits_value 0 ds = Some d" using assms by (simp add: ds_def digits_value_zero_pad)
  have n4: "(ys @ CHR ''-'' # ms @ CHR ''-'' # ds) ! 4 = CHR ''-''"
    using ly by (simp add: nth_append)
  have n7: "(ys @ CHR ''-'' # ms @ CHR ''-'' # ds) ! 7 = CHR ''-''"
    using ly lm by (simp add: nth_append nth_Cons')
  show ?thesis
    unfolding s parse_date_only_def using ly lm ld vy vm vd n4 n7 assms
    by (simp add: Suc_le_eq)
qed


lemma DateFromTime_le_days_in_month:
  "DateFromTime t \<le> days_in_month (YearFromTime t) (MonthFromTime t + 1)"
proof -
  have "0 \<le> DayWithinYear t" "DayWithinYear t < 365 + InLeapYear t"
    using DayWithinYear_bounds [of t] DaysInYear_cases [of "YearFromTime t"]
    by (auto simp add: InLeapYear_def)
  moreover have "InLeapYear t = 0 \<and> DaysInYear (YearFromTime t) \<noteq> 366 \<or>
      InLeapYear t = 1 \<and> DaysInYear (YearFromTime t) = 366"
    by (simp add: InLeapYear_def)
  ultimately show ?thesis
    unfolding DateFromTime_def MonthFromTime_def days_in_month_def Let_def by auto
qed

lemma iso_date_in_range:
  assumes "0 \<le> YearFromTime t" "YearFromTime t \<le> 9999"
  shows "iso_date t = YYYY_MM_DD (YearFromTime t) (MonthFromTime t + 1) (DateFromTime t)"
  using assms by (simp add: iso_date_def iso_year_def YYYY_MM_DD_def)

lemma no_T_iso_year: "CHR ''T'' \<notin> set (iso_year y)"
  using set_zero_pad [of 4 "nat y"] set_zero_pad [of 6 "nat \<bar>y\<bar>"]
  by (auto simp add: iso_year_def)

lemma no_T_iso_date: "CHR ''T'' \<notin> set (iso_date t)"
  using no_T_iso_year [of "YearFromTime t"] set_zero_pad [of 2 "nat (MonthFromTime t + 1)"]
    set_zero_pad [of 2 "nat (DateFromTime t)"]
  by (auto simp add: iso_date_def)

lemma takeWhile_until: "c \<notin> set xs \<Longrightarrow> takeWhile (\<lambda>x. x \<noteq> c) (xs @ c # ys) = xs"
  by (induction xs) auto

lemma split_T_0_toISOString:
  "toISOString (Some t) = Inr str \<Longrightarrow> split_T_0 str = iso_date t"
  using no_T_iso_date [of t]
  by (auto simp add: toISOString_def split_T_0_def takeWhile_until)

lemma date_input_absent: "d = None \<or> d = Some [] \<Longrightarrow> date_input host d = Inr (JStr [])"
  by (auto simp add: date_input_def)

lemma date_input_present:
  assumes "s \<noteq> []"
  shows "date_input host (Some s) =
     (case Date_new host s of None \<Rightarrow> Inl RangeError | Some t \<Rightarrow> Inr (JStr (iso_date t)))"
proof (cases "Date_new host s")
  case None
  then show ?thesis using assms by (simp add: date_input_def toISOString_def)
next
  case (Some t)
  obtain str where str: "toISOString (Some t) = Inr str" by (simp add: toISOString_def)
  then show ?thesis using assms Some split_T_0_toISOString [OF str] by (simp add: date_input_def)
qed

subsection \<open>Objects, the payload and runs of events\<close>

lemma obj_get_notin: "k \<notin> set (map fst ps) \<Longrightarrow> obj_get ps k = JUndefined"
  by (induction ps) auto

lemma map_fst_obj_replace: "map fst (obj_replace k v ps) = map fst ps"
  by (induction ps) auto

lemma obj_get_obj_replace:
  "k \<in> set (map fst ps) \<Longrightarrow> obj_get (obj_replace k v ps) k' = (if k' = k then v else obj_get ps k')"
proof (induction ps)
  case Nil
  then show ?case by simp
next
  case (Cons p ps)
  show ?case
  proof (cases "fst p = k")
    case True
    then show ?thesis by (cases p) auto
  next
    case False
    then have "k \<in> set (map fst ps)" using Cons.prems by auto
    then show ?thesis using Cons.IH False by (cases p) auto
  qed
qed

lemma obj_get_obj_insert_index:
  "k \<notin> set (map fst ps) \<Longrightarrow>
   obj_get (obj_insert_index k v ps) k' = (if k' = k then v else obj_get ps k')"
  by (induction ps) auto

lemma obj_get_append:
  "k \<notin> set (map fst ps) \<Longrightarrow>
   obj_get (ps @ [(k, v)]) k' = (if k' = k then v else obj_get ps k')"
  by (induction ps) auto

lemma obj_get_obj_set: "obj_get (obj_set k v ps) k' = (if k' = k then v else obj_get ps k')"
proof (cases "k \<in> set (map fst ps)")
  case True
  then show ?thesis using obj_get_obj_replace [of k ps v k'] by (simp add: obj_set_def)
next
  case False
  then show ?thesis
    by (simp add: obj_set_def obj_get_obj_insert_index obj_get_append)
qed

lemma map_fst_obj_set: "k \<in> set (map fst ps) \<Longrightarrow> map fst (obj_set k v ps) = map fst ps"
  by (simp add: obj_set_def map_fst_obj_replace)

lemma js_or_opt_toString: "ToString (js_or (opt_toString v) (JStr [])) = string_coercion v"
  by (cases v) (simp_all add: js_or_def string_coercion_def)

lemma foldl_FormData_append:
  "foldl (\<lambda>fd (k, v). FormData_append k (js_or (opt_toString v) (JStr [])) fd) acc fs =
   acc @ map (\<lambda>(k, v). (k, string_coercion v)) fs"
  by (induction fs arbitrary: acc) (auto simp add: FormData_append_def js_or_opt_toString)

lemma build_FormData_map: "build_FormData fs = map (\<lambda>(k, v). (k, string_coercion v)) fs"
  by (simp add: build_FormData_def foldl_FormData_append)

lemma map_fst_build_FormData: "map fst (build_FormData fs) = map fst fs"
  by (simp add: build_FormData_map case_prod_unfold)

lemma run_Nil: "run c [] = c"
  by (simp add: run_def)

lemma run_Cons: "run c (e # es) = run (step c e) es"
  by (simp add: run_def)

lemma run_append: "run c (es @ es') = run (run c es) es'"
  by (simp add: run_def)

lemma formData_step_submit:
  "formData (step c SubmitActivated) = formData c \<and> formData (step c (CallSettled out)) = formData c"
  by (auto simp add: handleSubmit_begin_def handleSubmit_resume_def Let_def split: outcome.splits)

lemma step_in_flight:
  assumes "pending c \<le> 1" "pending c = 1 \<longrightarrow> isSubmitting c"
  shows "pending (step c e) \<le> 1 \<and> (pending (step c e) = 1 \<longrightarrow> isSubmitting (step c e))"
proof (cases e)
  case (Change name val)
  then show ?thesis using assms by (simp add: handleChange_def)
next
  case SubmitActivated
  then show ?thesis using assms by (auto simp add: submit_disabled_def handleSubmit_begin_def)
next
  case (CallSettled out)
  then show ?thesis using assms
    by (auto simp add: handleSubmit_resume_def Let_def split: outcome.splits)
qed

lemma run_in_flight:
  assumes "pending c \<le> 1" "pending c = 1 \<longrightarrow> isSubmitting c"
  shows "pending (run c es) \<le> 1 \<and> (pending (run c es) = 1 \<longrightarrow> isSubmitting (run c es))"
  using assms
proof (induction es arbitrary: c)
  case Nil
  then show ?case by (simp add: run_Nil)
next
  case (Cons e es)
  then show ?case using step_in_flight [of c e] by (simp add: run_Cons)
qed

lemma step_stays_submitting:
  assumes "isSubmitting c" "pending c = 0"
  shows "isSubmitting (step c e) \<and> pending (step c e) = 0"
  using assms by (cases e) (simp_all add: handleChange_def submit_disabled_def)

lemma run_stays_submitting:
  assumes "isSubmitting c" "pending c = 0"
  shows "isSubmitting (run c es) \<and> pending (run c es) = 0"
  using assms
proof (induction es arbitrary: c)
  case Nil
  then show ?case by (simp add: run_Nil)
next
  case (Cons e es)
  then show ?case using step_stays_submitting [of c e] by (simp add: run_Cons)
qed

lemma mount_fresh:
  "mount host r = Inr c \<Longrightarrow> pending c = 0 \<and> \<not> isSubmitting c \<and> formError c = JNull"
  by (auto simp add: mount_def split: sum.splits)


lemma step_keeps_fields:
  assumes "map fst (formData c) = form_fields" "from_form e"
  shows "map fst (formData (step c e)) = form_fields"
proof (cases e)
  case (Change name val)
  then have "name \<in> set (map fst (formData c))"
    using assms by (auto simp add: control_names_def form_fields_def)
  then show ?thesis
    using Change assms(1) by (simp add: handleChange_def map_fst_obj_set)
next
  case SubmitActivated
  then show ?thesis using assms(1) formData_step_submit [of c] by simp
next
  case (CallSettled out)
  then show ?thesis using assms(1) formData_step_submit [of c out] by simp
qed

lemma run_keeps_fields:
  assumes "map fst (formData c) = form_fields" "list_all from_form es"
  shows "map fst (formData (run c es)) = form_fields"
  using assms
proof (induction es arbitrary: c)
  case Nil
  then show ?case by (simp add: run_Nil)
next
  case (Cons e es)
  then show ?case using step_keeps_fields [of c e] by (simp add: run_Cons)
qed

subsection \<open>The initial form state\<close>

lemma finite_toString_not_Nil: "finite_toString s n \<noteq> []"
  using decimal_digits_not_Nil [of s]
  by (auto simp add: finite_toString_def Let_def)

lemma Number_toString_not_Nil: "Number_toString x \<noteq> []"
  by (cases x) (simp_all add: finite_toString_not_Nil)

lemma js_or_text: "js_or (opt_str t) (JStr []) = JStr (text_display t)"
  by (cases t) (simp_all add: js_or_def text_display_def)

lemma js_or_status: "js_or (opt_str st) (JStr ''scheduled'') = JStr (status_display st)"
  by (cases st) (simp_all add: js_or_def status_display_def)

lemma js_or_cost: "js_or (opt_toString (opt_num c)) (JStr ''0'') = JStr (cost_display c)"
  by (cases c) (simp_all add: js_or_def cost_display_def Number_toString_not_Nil)

lemma date_input_valid:
  assumes "valid_date host d"
  shows "date_input host d = Inr (JStr (date_display host d))"
proof (cases "present d")
  case False
  then have "d = None \<or> d = Some []" by (simp add: present_def)
  then show ?thesis
    using date_input_absent [of d host] by (auto simp add: date_display_def)
next
  case True
  then obtain s where s: "d = Some s" "s \<noteq> []" by (auto simp add: present_def)
  then obtain t where t: "Date_new host s = Some t" "0 \<le> YearFromTime t" "YearFromTime t \<le> 9999"
    using assms by (auto simp add: valid_date_def split: option.splits)
  then show ?thesis
    using s date_input_present [of s host] iso_date_in_range [of t]
    by (simp add: date_display_def)
qed

lemma date_display_shape:
  assumes "valid_date host d"
  shows "if present d then is_YYYY_MM_DD (date_display host d) else date_display host d = []"
proof (cases "present d")
  case False
  then show ?thesis by (auto simp add: present_def date_display_def)
next
  case True
  then obtain s where s: "d = Some s" "s \<noteq> []" by (auto simp add: present_def)
  then obtain t where t: "Date_new host s = Some t" "0 \<le> YearFromTime t" "YearFromTime t \<le> 9999"
    using assms by (auto simp add: valid_date_def split: option.splits)
  have "parse_date_only (YYYY_MM_DD (YearFromTime t) (MonthFromTime t + 1) (DateFromTime t)) =
      Some (YearFromTime t, MonthFromTime t + 1, DateFromTime t)"
    using t MonthFromTime_bounds [of t] DateFromTime_bounds [of t]
      DateFromTime_le_days_in_month [of t]
    by (intro parse_YYYY_MM_DD) simp_all
  then show ?thesis using True s t by (simp add: date_display_def is_YYYY_MM_DD_def)
qed



subsection \<open>Calendar date strings are rendered as they are\<close>

lemma digit_value_Some:
  "digit_value c = Some d \<Longrightarrow> 0 \<le> d \<and> d < 10 \<and> ''0123456789'' ! nat d = c"
  by (auto simp add: digit_value_def split: if_splits)

lemma digits_value_acc:
  "digits_value acc xs = map_option (\<lambda>v. acc * 10 ^ length xs + v) (digits_value 0 xs)"
proof (induction xs arbitrary: acc)
  case Nil
  then show ?case by simp
next
  case (Cons c cs)
  show ?case
  proof (cases "digit_value c")
    case None
    then show ?thesis by simp
  next
    case (Some d)
    have "digits_value acc (c # cs) = digits_value (10 * acc + d) cs"
      using Some by simp
    also have "\<dots> = map_option (\<lambda>v. (10 * acc + d) * 10 ^ length cs + v) (digits_value 0 cs)"
      by (rule Cons.IH)
    finally have l: "digits_value acc (c # cs) =
        map_option (\<lambda>v. (10 * acc + d) * 10 ^ length cs + v) (digits_value 0 cs)" .
    have "digits_value 0 (c # cs) = digits_value d cs"
      using Some by simp
    also have "\<dots> = map_option (\<lambda>v. d * 10 ^ length cs + v) (digits_value 0 cs)"
      by (rule Cons.IH)
    finally have r: "digits_value 0 (c # cs) =
        map_option (\<lambda>v. d * 10 ^ length cs + v) (digits_value 0 cs)" .
    show ?thesis
      unfolding l r by (cases "digits_value 0 cs") (simp_all add: algebra_simps)
  qed
qed

lemma digits_value_snoc:
  "digits_value 0 (ys @ [c]) =
     (case digits_value 0 ys of
        None \<Rightarrow> None
      | Some a \<Rightarrow> (case digit_value c of None \<Rightarrow> None | Some d \<Rightarrow> Some (10 * a + d)))"
  by (simp add: digits_value_append split: option.splits)

lemma digits_value_less: "digits_value 0 xs = Some n \<Longrightarrow> 0 \<le> n \<and> n < 10 ^ length xs"
proof (induction xs arbitrary: n rule: rev_induct)
  case Nil
  then show ?case by simp
next
  case (snoc c ys)
  then obtain a d where a: "digits_value 0 ys = Some a" and d: "digit_value c = Some d"
    and n: "n = 10 * a + d"
    by (auto simp add: digits_value_snoc split: option.splits)
  have "0 \<le> a" "a < 10 ^ length ys" using snoc.IH a by simp_all
  moreover have "0 \<le> d" "d < 10" using digit_value_Some [OF d] by simp_all
  ultimately show ?case using n by simp
qed

lemma digits_value_zero:
  "digits_value 0 xs = Some 0 \<Longrightarrow> xs = replicate (length xs) (CHR ''0'')"
proof (induction xs rule: rev_induct)
  case Nil
  then show ?case by simp
next
  case (snoc c ys)
  then obtain a d where a: "digits_value 0 ys = Some a" and d: "digit_value c = Some d"
    and n: "0 = 10 * a + d"
    by (auto simp add: digits_value_snoc split: option.splits)
  moreover have "0 \<le> a" "0 \<le> d"
    using digits_value_less [OF a] digit_value_Some [OF d] by simp_all
  ultimately have "a = 0" "d = 0" by simp_all
  then have "ys = replicate (length ys) (CHR ''0'')" "c = CHR ''0''"
    using snoc.IH a digit_value_Some [OF d] by simp_all
  then have "ys @ [c] = replicate (length ys) (CHR ''0'') @ [CHR ''0'']" by simp
  then show ?case by (simp add: replicate_append_same)
qed

lemma zero_pad_digits_value:
  "xs \<noteq> [] \<Longrightarrow> digits_value 0 xs = Some n \<Longrightarrow> zero_pad (length xs) (nat n) = xs"
proof (induction xs arbitrary: n rule: rev_induct)
  case Nil
  then show ?case by simp
next
  case (snoc c ys)
  then obtain a d where a: "digits_value 0 ys = Some a" and d: "digit_value c = Some d"
    and n: "n = 10 * a + d"
    by (auto simp add: digits_value_snoc split: option.splits)
  have d0: "0 \<le> d" and d10: "d < 10" and dc: "''0123456789'' ! nat d = c"
    using digit_value_Some [OF d] by simp_all
  have a0: "0 \<le> a"
    using digits_value_less [OF a] by simp
  show ?case
  proof (cases "a = 0")
    case True
    then have "ys = replicate (length ys) (CHR ''0'')"
      using a digits_value_zero by simp
    moreover have "nat n < 10" "nat n = nat d"
      using True n d0 d10 by simp_all
    then have "decimal_digits (nat n) = [c]"
      using dc by (subst decimal_digits.simps) simp
    ultimately show ?thesis
      by (simp add: zero_pad_def)
  next
    case False
    then have ys: "ys \<noteq> []" using a by (cases ys) auto
    have "nat n = 10 * nat a + nat d"
      using n a0 d0 by (simp add: nat_add_distrib nat_mult_distrib)
    moreover have "nat d < 10" "0 < nat a"
      using d10 a0 False by simp_all
    ultimately have "nat n div 10 = nat a" "nat n mod 10 = nat d" "\<not> nat n < 10"
      by simp_all
    then have dd: "decimal_digits (nat n) = decimal_digits (nat a) @ [c]"
      using dc by (subst decimal_digits.simps) simp
    have "zero_pad (length ys) (nat a) = ys"
      using snoc.IH [OF ys a] .
    then show ?thesis
      by (simp add: zero_pad_def dd)
  qed
qed

lemma parse_date_only_SomeD:
  assumes "parse_date_only s = Some (y, m, d)"
  shows "s = take 4 s @ CHR ''-'' # take 2 (drop 5 s) @ CHR ''-'' # drop 8 s"
    and "length s = 10"
    and "digits_value 0 (take 4 s) = Some y"
    and "digits_value 0 (take 2 (drop 5 s)) = Some m"
    and "digits_value 0 (drop 8 s) = Some d"
    and "0 \<le> y" and "y \<le> 9999" and "1 \<le> m" and "m \<le> 12" and "1 \<le> d"
    and "d \<le> days_in_month y m"
proof -
  have len: "length s = 10" and s4: "s ! 4 = CHR ''-''" and s7: "s ! 7 = CHR ''-''"
    using assms by (simp_all add: parse_date_only_def split: if_splits)
  have yn: "digits_value 0 (take 4 s) = Some y"
    and mn: "digits_value 0 (take 2 (drop 5 s)) = Some m"
    and dn: "digits_value 0 (drop 8 s) = Some d"
    and rng: "1 \<le> m" "m \<le> 12" "1 \<le> d" "d \<le> days_in_month y m"
    using assms len s4 s7
    by (auto simp add: parse_date_only_def split: option.splits if_splits)
  show "length s = 10" by (rule len)
  show "digits_value 0 (take 4 s) = Some y" by (rule yn)
  show "digits_value 0 (take 2 (drop 5 s)) = Some m" by (rule mn)
  show "digits_value 0 (drop 8 s) = Some d" by (rule dn)
  show "1 \<le> m" "m \<le> 12" "1 \<le> d" "d \<le> days_in_month y m"
    using rng by simp_all
  have "0 \<le> y \<and> y < 10 ^ length (take 4 s)" using digits_value_less [OF yn] .
  then show "0 \<le> y" "y \<le> 9999" using len by simp_all
  have a: "drop 4 s = CHR ''-'' # drop 5 s"
    using Cons_nth_drop_Suc [of 4 s] len s4 by simp
  have b: "drop 7 s = CHR ''-'' # drop 8 s"
    using Cons_nth_drop_Suc [of 7 s] len s7 by simp
  have c: "drop 5 s = take 2 (drop 5 s) @ drop 7 s"
    using append_take_drop_id [of 2 "drop 5 s"] by simp
  have "s = take 4 s @ drop 4 s" by simp
  then show "s = take 4 s @ CHR ''-'' # take 2 (drop 5 s) @ CHR ''-'' # drop 8 s"
    using a b c by simp
qed

lemma parse_date_only_canonical:
  assumes "parse_date_only s = Some (y, m, d)"
  shows "YYYY_MM_DD y m d = s"
proof -
  note p = parse_date_only_SomeD [OF assms]
  have "zero_pad (length (take 4 s)) (nat y) = take 4 s"
    using p(2,3) by (intro zero_pad_digits_value) auto
  then have y: "zero_pad 4 (nat y) = take 4 s" using p(2) by simp
  have "zero_pad (length (take 2 (drop 5 s))) (nat m) = take 2 (drop 5 s)"
    using p(2,4) by (intro zero_pad_digits_value) auto
  then have m: "zero_pad 2 (nat m) = take 2 (drop 5 s)" using p(2) by simp
  have "zero_pad (length (drop 8 s)) (nat d) = drop 8 s"
    using p(2,5) by (intro zero_pad_digits_value) auto
  then have d: "zero_pad 2 (nat d) = drop 8 s" using p(2) by simp
  show ?thesis
    unfolding YYYY_MM_DD_def y m d using p(1) by simp
qed

lemma month_cases:
  fixes m :: int
  assumes "1 \<le> m" "m \<le> 12"
  shows "m = 1 \<or> m = 2 \<or> m = 3 \<or> m = 4 \<or> m = 5 \<or> m = 6 \<or> m = 7 \<or> m = 8 \<or>
      m = 9 \<or> m = 10 \<or> m = 11 \<or> m = 12"
  using assms by presburger

lemma Day_MakeDate: "Day (MakeDate day 0) = day"
  by (simp add: Day_def MakeDate_def msPerDay_def)

lemma day_within_month:
  fixes d l m :: int
  assumes "1 \<le> m" "m \<le> 12" "1 \<le> d"
    and "d \<le> (if m = 2 then 28 + l else if m = 4 \<or> m = 6 \<or> m = 9 \<or> m = 11 then 30 else 31)"
    and "l = 0 \<or> l = 1"
  shows "0 \<le> MonthStart l (m - 1) + d - 1 \<and> MonthStart l (m - 1) + d - 1 < 365 + l"
  using month_cases [OF assms(1,2)] assms(3,4,5)
  by (elim disjE) (simp_all add: MonthStart_def)

lemma month_of_day_within_month:
  fixes d l m :: int
  assumes "1 \<le> m" "m \<le> 12" "1 \<le> d"
    and "d \<le> (if m = 2 then 28 + l else if m = 4 \<or> m = 6 \<or> m = 9 \<or> m = 11 then 30 else 31)"
    and "l = 0 \<or> l = 1"
  defines "w \<equiv> MonthStart l (m - 1) + d - 1"
  shows "(if w < 31 then 0
      else if w < 59 + l then 1
      else if w < 90 + l then 2
      else if w < 120 + l then 3
      else if w < 151 + l then 4
      else if w < 181 + l then 5
      else if w < 212 + l then 6
      else if w < 243 + l then 7
      else if w < 273 + l then 8
      else if w < 304 + l then 9
      else if w < 334 + l then 10
      else 11) = m - 1"
  unfolding w_def
  using month_cases [OF assms(1,2)] assms(3,4,5)
  by (elim disjE) (simp_all add: MonthStart_def)

lemma date_of_day_within_month:
  fixes d l m :: int
  assumes "1 \<le> m" "m \<le> 12"
  defines "w \<equiv> MonthStart l (m - 1) + d - 1"
  shows "(if m - 1 = 0 then w + 1
      else if m - 1 = 1 then w - 30
      else if m - 1 = 2 then w - 58 - l
      else if m - 1 = 3 then w - 89 - l
      else if m - 1 = 4 then w - 119 - l
      else if m - 1 = 5 then w - 150 - l
      else if m - 1 = 6 then w - 180 - l
      else if m - 1 = 7 then w - 211 - l
      else if m - 1 = 8 then w - 242 - l
      else if m - 1 = 9 then w - 272 - l
      else if m - 1 = 10 then w - 303 - l
      else w - 333 - l) = d"
  unfolding w_def
  using month_cases [OF assms(1,2)]
  by (elim disjE) (simp_all add: MonthStart_def)


lemma calendar_date_of_MakeDay:
  assumes "1 \<le> m" "m \<le> 12" "1 \<le> d" "d \<le> days_in_month y m"
  defines "t \<equiv> MakeDate (MakeDay y (m - 1) d) 0"
  shows "YearFromTime t = y \<and> MonthFromTime t = m - 1 \<and> DateFromTime t = d"
proof -
  define l :: int where "l = (if DaysInYear y = 366 then 1 else 0)"
  have m12: "(m - 1) div 12 = 0" "(m - 1) mod 12 = m - 1"
    using assms(1,2) by simp_all
  have day: "Day t = DayFromYear y + MonthStart l (m - 1) + d - 1"
    by (simp add: t_def Day_MakeDate MakeDay_def m12 l_def)
  have ly: "DaysInYear y = 365 + l"
    using DaysInYear_cases [of y] by (auto simp add: l_def)
  have l01: "l = 0 \<or> l = 1" by (simp add: l_def)
  have dim: "d \<le> (if m = 2 then 28 + l else if m = 4 \<or> m = 6 \<or> m = 9 \<or> m = 11 then 30 else 31)"
    using assms(4) by (auto simp add: days_in_month_def l_def split: if_splits)
  note within = day_within_month [OF assms(1,2,3) dim l01]
  have "DayFromYear y \<le> Day t" "Day t < DayFromYear (y + 1)"
    using within day ly DayFromYear_step [of y] by simp_all
  then have yr: "YearFromTime t = y"
    unfolding YearFromTime_def by (rule YearFromDay_unique)
  have leap: "InLeapYear t = l"
    by (simp add: InLeapYear_def yr l_def)
  have dwy: "DayWithinYear t = MonthStart l (m - 1) + d - 1"
    by (simp add: DayWithinYear_def yr day)
  have mo: "MonthFromTime t = m - 1"
    unfolding MonthFromTime_def Let_def leap dwy
    by (rule month_of_day_within_month [OF assms(1,2,3) dim l01])
  have "DateFromTime t = d"
    unfolding DateFromTime_def Let_def mo leap dwy
    by (rule date_of_day_within_month [OF assms(1,2)])
  then show ?thesis using yr mo by simp
qed

lemma DayFromYear_range:
  assumes "0 \<le> y" "y \<le> 9999"
  shows "- 719528 \<le> DayFromYear y \<and> DayFromYear y \<le> 2932532"
proof -
  have "DayFromYear 0 \<le> DayFromYear y" "DayFromYear y \<le> DayFromYear 9999"
    using assms by (simp_all add: DayFromYear_mono)
  moreover have "DayFromYear 0 = - 719528" "DayFromYear 9999 = 2932532"
    by (simp_all add: DayFromYear_def)
  ultimately show ?thesis by simp
qed

lemma Date_new_date_only:
  assumes "parse_date_only s = Some (y, m, d)"
  shows "Date_new host s = Some (MakeDate (MakeDay y (m - 1) d) 0)"
proof -
  note p = parse_date_only_SomeD [OF assms]
  define l :: int where "l = (if DaysInYear y = 366 then 1 else 0)"
  have m12: "(m - 1) div 12 = 0" "(m - 1) mod 12 = m - 1"
    using p(8,9) by simp_all
  have md: "MakeDay y (m - 1) d = DayFromYear y + MonthStart l (m - 1) + d - 1"
    by (simp add: MakeDay_def m12 l_def)
  have l01: "l = 0 \<or> l = 1" by (simp add: l_def)
  have dim: "d \<le> (if m = 2 then 28 + l else if m = 4 \<or> m = 6 \<or> m = 9 \<or> m = 11 then 30 else 31)"
    using p(11) by (auto simp add: days_in_month_def l_def split: if_splits)
  have "0 \<le> MonthStart l (m - 1) + d - 1" "MonthStart l (m - 1) + d - 1 < 366"
    using day_within_month [OF p(8,9,10) dim l01] l01 by auto
  then have "- 719528 \<le> MakeDay y (m - 1) d" "MakeDay y (m - 1) d \<le> 2932898"
    using DayFromYear_range [OF p(6,7)] md by simp_all
  then have "\<bar>MakeDate (MakeDay y (m - 1) d) 0\<bar> \<le> 8640000000000000"
    by (simp add: MakeDate_def msPerDay_def)
  then show ?thesis
    using assms by (simp add: Date_new_def Date_parse_def TimeClip_def)
qed

lemma date_only_valid:
  assumes "is_YYYY_MM_DD s"
  shows "valid_date host (Some s) \<and> date_display host (Some s) = s \<and>
         date_input host (Some s) = Inr (JStr s)"
proof -
  obtain y m d where p: "parse_date_only s = Some (y, m, d)"
    using assms by (auto simp add: is_YYYY_MM_DD_def split: option.splits)
  note q = parse_date_only_SomeD [OF p]
  define t where "t = MakeDate (MakeDay y (m - 1) d) 0"
  have new: "Date_new host s = Some t"
    unfolding t_def using p by (rule Date_new_date_only)
  have cal: "YearFromTime t = y" "MonthFromTime t = m - 1" "DateFromTime t = d"
    unfolding t_def using calendar_date_of_MakeDay [OF q(8,9,10,11)] by simp_all
  have ne: "s \<noteq> []" using q(2) by auto
  have v: "valid_date host (Some s)"
    using new cal q(6,7) by (simp add: valid_date_def)
  have dd: "date_display host (Some s) = s"
    using new cal ne parse_date_only_canonical [OF p] by (simp add: date_display_def)
  show ?thesis
    using v dd date_input_valid [OF v] by simp
qed

lemma step_keeps_strings:
  "is_display_string (obj_get (formData c) k) \<Longrightarrow>
   is_display_string (obj_get (formData (step c e)) k)"
  using formData_step_submit [of c]
  by (cases e) (simp_all add: handleChange_def obj_get_obj_set is_display_string_def)

lemma run_keeps_strings:
  "is_display_string (obj_get (formData c) k) \<Longrightarrow>
   is_display_string (obj_get (formData (run c es)) k)"
proof (induction es arbitrary: c)
  case Nil
  then show ?case by (simp add: run_Nil)
next
  case (Cons e es)
  then show ?case using step_keeps_strings [of c k e] by (simp add: run_Cons)
qed

lemma date_input_string:
  assumes "date_input host d = Inr v"
  shows "is_display_string v \<and> CHR ''T'' \<notin> set (ToString v)"
proof (cases "present d")
  case False
  then have "d = None \<or> d = Some []" by (simp add: present_def)
  then have "date_input host d = Inr (JStr [])" by (rule date_input_absent)
  then show ?thesis using assms by (simp add: is_display_string_def)
next
  case True
  then obtain s where s: "d = Some s" "s \<noteq> []" by (auto simp add: present_def)
  show ?thesis
  proof (cases "Date_new host s")
    case None
    then show ?thesis using assms s date_input_present [of s host] by simp
  next
    case (Some t)
    then have "v = JStr (iso_date t)" using assms s date_input_present [of s host] by simp
    then show ?thesis using no_T_iso_date [of t] by (simp add: is_display_string_def)
  qed
qed

lemma mount_formData: "mount host r = Inr c \<Longrightarrow> initFormData host r = Inr (formData c)"
  by (cases "initFormData host r") (auto simp add: mount_def)

lemma initFormData_Inr:
  assumes "initFormData host r = Inr fd"
  shows "\<exists>dp nd. date_input host (date_performed r) = Inr dp \<and>
           date_input host (next_due_date r) = Inr nd \<and>
           fd = [(''id'', JNum (id' r)),
                 (''vehicle_id'', JNum (vehicle_id r)),
                 (''service_type'', JStr (text_display (service_type r))),
                 (''description'', JStr (text_display (description r))),
                 (''date_performed'', dp),
                 (''next_due_date'', nd),
                 (''cost'', JStr (cost_display (cost r))),
                 (''status'', JStr (status_display (status r))),
                 (''service_provider'', JStr (text_display (service_provider r))),
                 (''notes'', JStr (text_display (notes' r)))]"
proof (cases "date_input host (date_performed r)")
  case (Inl e)
  then show ?thesis using assms by (simp add: initFormData_def)
next
  case dp: (Inr dp)
  show ?thesis
  proof (cases "date_input host (next_due_date r)")
    case (Inl e)
    then show ?thesis using assms dp by (simp add: initFormData_def)
  next
    case (Inr nd)
    then show ?thesis using assms dp
      by (simp add: initFormData_def js_or_text js_or_status js_or_cost)
  qed
qed

lemma initFormData_scenario: "initFormData strict_host scenario_record = Inr scenario_form"
  by code_simp

lemma mount_scenario: "mount strict_host scenario_record = Inr scenario_component"
  by code_simp

lemma initFormData_scenario_any_host: "initFormData host scenario_record = Inr scenario_form"
  by (simp add: initFormData_def scenario_record_def scenario_form_def date_input_def
     Date_new_def Date_parse_def parse_date_only_def digit_value_def days_in_month_def DaysInYear_def
     MakeDate_def MakeDay_def MonthStart_def DayFromYear_def msPerDay_def TimeClip_def toISOString_def
     iso_date_def iso_time_def iso_year_def YearFromTime_def YearFromDay_def Day_def MonthFromTime_def 
     DateFromTime_def DayWithinYear_def InLeapYear_def HourFromTime_def MinFromTime_def SecFromTime_def msFromTime_def
     zero_pad_def split_T_0_def js_or_def finite_toString_def decimal_digits.simps Let_def)

subsection \<open>Calendar strings and edits\<close>

lemma Date_new_range: "Date_new host s = Some t \<Longrightarrow> \<bar>t\<bar> \<le> 8640000000000000"
  by (auto simp add: Date_new_def TimeClip_def split: option.splits if_splits)

lemma Day_range:
  assumes "\<bar>t\<bar> \<le> 8640000000000000"
  shows "- 100000000 \<le> Day t \<and> Day t \<le> 100000000"
proof -
  have "86400000 * (t div 86400000) \<le> t" by (rule div_lo) simp
  moreover have "t < 86400000 * (t div 86400000) + 86400000" by (rule div_hi) simp
  ultimately show ?thesis using assms unfolding Day_def msPerDay_def by linarith
qed

lemma YearFromTime_range:
  assumes "\<bar>t\<bar> \<le> 8640000000000000"
  shows "- 1000000 < YearFromTime t \<and> YearFromTime t < 1000000"
proof -
  define y where "y = YearFromTime t"
  have b: "DayFromYear y \<le> Day t" "Day t < DayFromYear (y + 1)"
    using YearFromDay_bounds [of "Day t"] by (simp_all add: y_def YearFromTime_def)
  have d: "- 100000000 \<le> Day t" "Day t \<le> 100000000"
    using Day_range [OF assms] by simp_all
  have "y < 1000000"
  proof (rule ccontr)
    assume "\<not> y < 1000000"
    then have "DayFromYear 1000000 \<le> DayFromYear y" by (intro DayFromYear_mono) simp
    moreover have "DayFromYear 1000000 = 364522972" by (simp add: DayFromYear_def)
    ultimately show False using b d by linarith
  qed
  moreover have "- 1000000 < y"
  proof (rule ccontr)
    assume "\<not> - 1000000 < y"
    then have "DayFromYear (y + 1) \<le> DayFromYear (- 999999)" by (intro DayFromYear_mono) simp
    moreover have "DayFromYear (- 999999) = - 365961662" by (simp add: DayFromYear_def)
    ultimately show False using b d by linarith
  qed
  ultimately show ?thesis by (simp add: y_def)
qed

lemma parse_date_only_length: "parse_date_only s = Some ymd \<Longrightarrow> length s = 10"
  by (simp add: parse_date_only_def split: if_splits)

lemma parse_calendar_date_iso_date:
  assumes "\<bar>t\<bar> \<le> 8640000000000000"
  shows "parse_calendar_date (iso_date t) =
     Some (YearFromTime t, MonthFromTime t + 1, DateFromTime t)"
proof (cases "0 \<le> YearFromTime t \<and> YearFromTime t \<le> 9999")
  case True
  then have "iso_date t = YYYY_MM_DD (YearFromTime t) (MonthFromTime t + 1) (DateFromTime t)"
    by (simp add: iso_date_in_range)
  moreover have "parse_date_only (YYYY_MM_DD (YearFromTime t) (MonthFromTime t + 1) (DateFromTime t)) =
      Some (YearFromTime t, MonthFromTime t + 1, DateFromTime t)"
    using True MonthFromTime_bounds [of t] DateFromTime_bounds [of t]
      DateFromTime_le_days_in_month [of t]
    by (intro parse_YYYY_MM_DD) simp_all
  ultimately show ?thesis by (simp add: parse_calendar_date_def)
next
  case False
  define y where "y = YearFromTime t"
  define m where "m = MonthFromTime t + 1"
  define d where "d = DateFromTime t"
  define sg where "sg = (if y < 0 then CHR ''-'' else CHR ''+'')"
  define ys where "ys = zero_pad 6 (nat \<bar>y\<bar>)"
  define ms where "ms = zero_pad 2 (nat m)"
  define ds where "ds = zero_pad 2 (nat d)"
  have yr: "- 1000000 < y" "y < 1000000" "y < 0 \<or> 9999 < y"
    using YearFromTime_range [OF assms] False by (auto simp add: y_def)
  have mb: "1 \<le> m" "m \<le> 12"
    using MonthFromTime_bounds [of t] by (simp_all add: m_def)
  have db: "1 \<le> d" "d \<le> 31" "d \<le> days_in_month y m"
    using DateFromTime_bounds [of t] DateFromTime_le_days_in_month [of t]
    by (simp_all add: d_def y_def m_def)
  have ly: "length ys = 6" unfolding ys_def using yr by (intro length_zero_pad) auto
  have lm: "length ms = 2" unfolding ms_def using mb by (intro length_zero_pad) auto
  have ld: "length ds = 2" unfolding ds_def using db by (intro length_zero_pad) auto
  have s: "iso_date t = sg # ys @ CHR ''-'' # ms @ CHR ''-'' # ds"
    using False
    by (simp add: iso_date_def iso_year_def sg_def ys_def ms_def ds_def y_def m_def d_def)
  have vy: "digits_value 0 ys = Some \<bar>y\<bar>" by (simp add: ys_def digits_value_zero_pad)
  have vm: "digits_value 0 ms = Some m" using mb by (simp add: ms_def digits_value_zero_pad)
  have vd: "digits_value 0 ds = Some d" using db by (simp add: ds_def digits_value_zero_pad)
  have none: "parse_date_only (sg # ys @ CHR ''-'' # ms @ CHR ''-'' # ds) = None"
    using ly lm ld by (simp add: parse_date_only_def)
  have n7: "(sg # ys @ CHR ''-'' # ms @ CHR ''-'' # ds) ! 7 = CHR ''-''"
    using ly by (simp add: nth_Cons' nth_append)
  have n10: "(sg # ys @ CHR ''-'' # ms @ CHR ''-'' # ds) ! 10 = CHR ''-''"
    using ly lm by (simp add: nth_Cons' nth_append)
  have sgn: "(if sg = CHR ''-'' then - \<bar>y\<bar> else \<bar>y\<bar>) = y" "sg = CHR ''+'' \<or> sg = CHR ''-''"
    by (auto simp add: sg_def)
  have "parse_calendar_date (sg # ys @ CHR ''-'' # ms @ CHR ''-'' # ds) = Some (y, m, d)"
    unfolding parse_calendar_date_def none
    using ly lm ld vy vm vd n7 n10 sgn yr mb db
    by (simp add: Let_def)
  then show ?thesis
    by (simp add: s y_def m_def d_def)
qed

lemma obj_get_step:
  "obj_get (formData (step c e)) k =
     (case e of
        Change name val \<Rightarrow> if name = k then JStr val else obj_get (formData c) k
      | _ \<Rightarrow> obj_get (formData c) k)"
  using formData_step_submit [of c]
  by (cases e) (simp_all add: handleChange_def obj_get_obj_set)

lemma obj_get_run:
  "obj_get (formData (run c es)) k =
     (case last_edit k es of None \<Rightarrow> obj_get (formData c) k | Some v \<Rightarrow> JStr v)"
proof (induction es arbitrary: c)
  case Nil
  then show ?case by (simp add: run_Nil)
next
  case (Cons e es)
  have "obj_get (formData (run c (e # es))) k =
      (case last_edit k es of None \<Rightarrow> obj_get (formData (step c e)) k | Some v \<Rightarrow> JStr v)"
    using Cons.IH [of "step c e"] by (simp add: run_Cons)
  then show ?case
    unfolding obj_get_step by (cases e) (simp_all split: option.splits)
qed

lemma date_input_calendar:
  assumes "date_input host d = Inr v"
  shows "v = JStr (calendar_string host d) \<and>
         (if present d then is_ISO_calendar_date (calendar_string host d)
          else calendar_string host d = [])"
proof (cases "present d")
  case False
  then have a: "d = None \<or> d = Some []" by (simp add: present_def)
  then have "date_input host d = Inr (JStr [])" by (rule date_input_absent)
  moreover have "calendar_string host d = []" using a by (auto simp add: calendar_string_def)
  ultimately show ?thesis using assms False by simp
next
  case True
  then obtain s where s: "d = Some s" "s \<noteq> []" by (auto simp add: present_def)
  show ?thesis
  proof (cases "Date_new host s")
    case None
    then show ?thesis using assms s date_input_present [of s host] by simp
  next
    case (Some t)
    then have v: "v = JStr (iso_date t)" using assms s date_input_present [of s host] by simp
    have c: "calendar_string host d = iso_date t" using s Some by (simp add: calendar_string_def)
    have "is_ISO_calendar_date (iso_date t)"
      using parse_calendar_date_iso_date [OF Date_new_range [OF Some]]
      by (simp add: is_ISO_calendar_date_def)
    then show ?thesis using v c True by simp
  qed
qed

section \<open>The claims\<close>

subsection \<open>C1: the initial form state\<close>

text \<open>
  Claim C1. For every input maintenance record whose date fields, where present, denote
  valid dates in the years 0 to 9999, the form state produced at construction equals the
  record's fields after the display transforms: \<^verbatim>\<open>id\<close> and \<^verbatim>\<open>vehicle_id\<close> as they are, each
  date field as \<^verbatim>\<open>YYYY-MM-DD\<close> if present and as the empty string otherwise, the cost as its
  string form or \<^verbatim>\<open>"0"\<close> if absent, the status as its value or \<^verbatim>\<open>"scheduled"\<close> if absent
  or empty, every text field as its value or the empty string. The rendered date is a
  legal calendar date string. Every date field that is itself a legal calendar date
  string \<^verbatim>\<open>YYYY-MM-DD\<close> is such a valid date, on every engine, and is rendered as it is.
\<close>

theorem initial_form_state:
  assumes "valid_date host (date_performed r)" and "valid_date host (next_due_date r)"
  shows "initFormData host r =
           Inr [(''id'', JNum (id' r)),
                (''vehicle_id'', JNum (vehicle_id r)),
                (''service_type'', JStr (text_display (service_type r))),
                (''description'', JStr (text_display (description r))),
                (''date_performed'', JStr (date_display host (date_performed r))),
                (''next_due_date'', JStr (date_display host (next_due_date r))),
                (''cost'', JStr (cost_display (cost r))),
                (''status'', JStr (status_display (status r))),
                (''service_provider'', JStr (text_display (service_provider r))),
                (''notes'', JStr (text_display (notes' r)))] \<and>
         (if present (date_performed r) then is_YYYY_MM_DD (date_display host (date_performed r))
          else date_display host (date_performed r) = []) \<and>
         (if present (next_due_date r) then is_YYYY_MM_DD (date_display host (next_due_date r))
          else date_display host (next_due_date r) = []) \<and>
         (\<forall>s. is_YYYY_MM_DD s \<longrightarrow> valid_date host (Some s) \<and> date_display host (Some s) = s)"
proof -
  have "\<forall>s. is_YYYY_MM_DD s \<longrightarrow> valid_date host (Some s) \<and> date_display host (Some s) = s"
    using date_only_valid [of _ host] by simp
  then show ?thesis
    using date_input_valid [OF assms(1)] date_input_valid [OF assms(2)]
      date_display_shape [OF assms(1)] date_display_shape [OF assms(2)]
    by (simp add: initFormData_def js_or_text js_or_status js_or_cost)
qed

text \<open>
  The scenario of the specification: the cost field is \<^verbatim>\<open>"45.5"\<close> and the next-due date
  field is \<^verbatim>\<open>"2024-05-01"\<close>.
\<close>

theorem initial_form_state_witness:
  "valid_date strict_host (date_performed scenario_record) \<and>
   valid_date strict_host (next_due_date scenario_record) \<and>
   initFormData strict_host scenario_record =
     Inr [(''id'', JNum (Finite False 7 1)),
          (''vehicle_id'', JNum (Finite False 3 1)),
          (''service_type'', JStr ''Oil Change''),
          (''description'', JStr []),
          (''date_performed'', JStr []),
          (''next_due_date'', JStr ''2024-05-01''),
          (''cost'', JStr ''45.5''),
          (''status'', JStr ''completed''),
          (''service_provider'', JStr []),
          (''notes'', JStr [])] \<and>
   is_YYYY_MM_DD ''2024-05-01''"
proof -
  have v1: "valid_date strict_host (date_performed scenario_record)"
    by code_simp
  have v2: "valid_date strict_host (next_due_date scenario_record)"
    by code_simp
  have d1: "date_display strict_host (date_performed scenario_record) = []"
    by code_simp
  have d2: "date_display strict_host (next_due_date scenario_record) = ''2024-05-01''"
    by code_simp
  have c: "cost_display (cost scenario_record) = ''45.5''"
    by code_simp
  have p: "present (next_due_date scenario_record)"
    by code_simp
  have i: "id' scenario_record = Finite False 7 1" "vehicle_id scenario_record = Finite False 3 1"
    by (simp_all add: scenario_record_def)
  have t: "text_display (service_type scenario_record) = ''Oil Change''"
    "text_display (description scenario_record) = []"
    "text_display (service_provider scenario_record) = []"
    "text_display (notes' scenario_record) = []"
    "status_display (status scenario_record) = ''completed''"
    by (simp_all add: scenario_record_def text_display_def status_display_def)
  show ?thesis
    using initial_form_state [OF v1 v2] v1 v2 p
    by (simp add: d1 d2 c i t)
qed

text \<open>
  Without the condition on the dates the claim fails: a next-due date that is no date
  makes \<^verbatim>\<open>toISOString\<close> throw, and the initialiser produces no form state.
\<close>

theorem initial_form_state_counterexample:
  "initFormData strict_host (scenario_record\<lparr>next_due_date := Some ''not a date''\<rparr>) =
     Inl RangeError"
  by code_simp

subsection \<open>C2: the payload of a submission\<close>

text \<open>
  Claim C2. For every form state (an object with the ten form fields), the submit
  operation passes to the update call a payload with exactly the keys \<^verbatim>\<open>id\<close>,
  \<^verbatim>\<open>vehicle_id\<close>, \<^verbatim>\<open>service_type\<close>, \<^verbatim>\<open>description\<close>, \<^verbatim>\<open>date_performed\<close>, \<^verbatim>\<open>next_due_date\<close>,
  \<^verbatim>\<open>cost\<close>, \<^verbatim>\<open>status\<close>, \<^verbatim>\<open>service_provider\<close>, \<^verbatim>\<open>notes\<close>, in this order; each value is the
  string coercion of the field of that name, and a field that is null or undefined is
  sent as the empty string.
\<close>

theorem submit_payload:
  assumes "map fst (formData c) = form_fields"
  shows "update_calls (handleSubmit upd c) =
           update_calls c @ [map (\<lambda>(k, v). (k, string_coercion v)) (formData c)] \<and>
         map fst (build_FormData (formData c)) = form_fields \<and>
         build_FormData (formData c) = map (\<lambda>(k, v). (k, string_coercion v)) (formData c) \<and>
         string_coercion JNull = [] \<and> string_coercion JUndefined = []"
proof -
  have "update_calls (handleSubmit upd c) = update_calls c @ [build_FormData (formData c)]"
    by (simp add: handleSubmit_def handleSubmit_begin_def handleSubmit_resume_def Let_def
        split: outcome.splits)
  moreover have "string_coercion JNull = [] \<and> string_coercion JUndefined = []"
    by (simp add: string_coercion_def)
  ultimately show ?thesis
    using assms by (simp add: build_FormData_map [symmetric] map_fst_build_FormData)
qed

theorem submit_payload_witness:
  "map fst (formData scenario_component) = form_fields \<and>
   update_calls (handleSubmit update_throws scenario_component) =
     [[(''id'', ''7''), (''vehicle_id'', ''3''), (''service_type'', ''Oil Change''),
       (''description'', []), (''date_performed'', []), (''next_due_date'', ''2024-05-01''),
       (''cost'', ''45.5''), (''status'', ''completed''), (''service_provider'', []),
       (''notes'', [])]]"
  using submit_payload [of scenario_component update_throws]
  by (simp add: scenario_component_def scenario_form_def form_fields_def string_coercion_def
      finite_toString_def decimal_digits.simps)

subsection \<open>C3: a failure result\<close>

text \<open>
  Claim C3. For every submission whose update call returns a failure result, the error
  banner shows the result's message exactly if the message is a non-empty string, and
  the generic text "An error occurred while updating the maintenance record" if the
  result carries no message or an empty one; in both cases the submit control is
  enabled again.
\<close>

theorem failure_result_banner:
  assumes "upd (build_FormData (formData c)) = Resolved res" and "\<not> success res"
  shows "error_banner (handleSubmit upd c) =
           Some (case message res of
                   None \<Rightarrow> ''An error occurred while updating the maintenance record''
                 | Some X \<Rightarrow>
                     if X = [] then ''An error occurred while updating the maintenance record''
                     else X) \<and>
         \<not> submit_disabled (handleSubmit upd c)"
  using assms
  by (simp add: error_banner_def submit_disabled_def handleSubmit_def handleSubmit_begin_def
      handleSubmit_resume_def js_or_def Let_def split: option.splits)

text \<open>The scenario of the specification: the message "Vehicle not found".\<close>

theorem failure_result_banner_witness:
  "update_not_found (build_FormData (formData scenario_component)) =
     Resolved \<lparr>success = False, message = Some ''Vehicle not found''\<rparr> \<and>
   \<not> success \<lparr>success = False, message = Some ''Vehicle not found''\<rparr> \<and>
   error_banner (handleSubmit update_not_found scenario_component) = Some ''Vehicle not found'' \<and>
   \<not> submit_disabled (handleSubmit update_not_found scenario_component)"
proof -
  have h: "update_not_found (build_FormData (formData scenario_component)) =
      Resolved \<lparr>success = False, message = Some ''Vehicle not found''\<rparr>"
    by (simp add: update_not_found_def)
  from failure_result_banner [of update_not_found scenario_component
      "\<lparr>success = False, message = Some ''Vehicle not found''\<rparr>"] h show ?thesis
    by simp
qed

text \<open>
  A failure result whose message is the empty string: the banner shows the generic
  text, not the message.
\<close>

theorem failure_result_banner_counterexample:
  "update_empty_message (build_FormData (formData scenario_component)) =
     Resolved \<lparr>success = False, message = Some []\<rparr> \<and>
   error_banner (handleSubmit update_empty_message scenario_component) =
     Some ''An error occurred while updating the maintenance record'' \<and>
   error_banner (handleSubmit update_empty_message scenario_component) \<noteq> Some []"
  by (simp add: update_empty_message_def error_banner_def handleSubmit_def
      handleSubmit_begin_def handleSubmit_resume_def js_or_def Let_def)

subsection \<open>C4: a thrown error\<close>

text \<open>
  Claim C4. For every submission in which the update call throws, the error banner
  shows the text of the catch block, "An unexpected error occurred. Please try again.",
  and the submitting state is cleared, so that the form can be submitted again. But for
  this banner text and the line written to the console, the component is left as by a
  failure result with no message.
\<close>

theorem thrown_error_banner:
  assumes "upd (build_FormData (formData c)) = Rejected err"
  shows "error_banner (handleSubmit upd c) =
           Some ''An unexpected error occurred. Please try again.'' \<and>
         \<not> isSubmitting (handleSubmit upd c) \<and>
         \<not> submit_disabled (handleSubmit upd c) \<and>
         handleSubmit upd c =
           (handleSubmit update_no_message c)
             \<lparr>formError := JStr ''An unexpected error occurred. Please try again.'',
              console_errors := console_errors c @ [(''Error submitting form:'', err)]\<rparr>"
  using assms
  by (simp add: update_no_message_def error_banner_def submit_disabled_def handleSubmit_def
      handleSubmit_begin_def handleSubmit_resume_def js_or_def Let_def)

theorem thrown_error_banner_witness:
  "update_throws (build_FormData (formData scenario_component)) = Rejected ''Failed to fetch'' \<and>
   error_banner (handleSubmit update_throws scenario_component) =
     Some ''An unexpected error occurred. Please try again.'' \<and>
   \<not> isSubmitting (handleSubmit update_throws scenario_component)"
proof -
  have h: "update_throws (build_FormData (formData scenario_component)) =
      Rejected ''Failed to fetch''"
    by (simp add: update_throws_def)
  from thrown_error_banner [of update_throws scenario_component "''Failed to fetch''"] h
  show ?thesis
    by blast
qed

text \<open>
  What the user sees after a thrown error is not what the user sees after a failure
  result with no message: the two banner texts differ.
\<close>

theorem thrown_error_banner_counterexample:
  "error_banner (handleSubmit update_throws scenario_component) \<noteq>
   error_banner (handleSubmit update_no_message scenario_component)"
  by (simp add: update_throws_def update_no_message_def error_banner_def handleSubmit_def
      handleSubmit_begin_def handleSubmit_resume_def js_or_def Let_def)

subsection \<open>C5: a success result\<close>

text \<open>
  Claim C5. For every submission whose update call returns a success result, the
  component navigates to the maintenance listing route exactly once, requests one
  refresh of the route's data after it, and shows no error banner.
\<close>

theorem success_navigates_once:
  assumes "upd (build_FormData (formData c)) = Resolved res" and "success res"
  shows "router_calls (handleSubmit upd c) =
           router_calls c @ [Push ''/dashboard/maintenance'', Refresh] \<and>
         count_list (router_calls (handleSubmit upd c)) (Push ''/dashboard/maintenance'') =
           count_list (router_calls c) (Push ''/dashboard/maintenance'') + 1 \<and>
         count_list (router_calls (handleSubmit upd c)) Refresh =
           count_list (router_calls c) Refresh + 1 \<and>
         error_banner (handleSubmit upd c) = None"
  using assms
  by (simp add: error_banner_def handleSubmit_def handleSubmit_begin_def
      handleSubmit_resume_def Let_def)

theorem success_navigates_once_witness:
  "update_succeeds (build_FormData (formData scenario_component)) =
     Resolved \<lparr>success = True, message = None\<rparr> \<and>
   success \<lparr>success = True, message = None\<rparr> \<and>
   router_calls (handleSubmit update_succeeds scenario_component) =
     [Push ''/dashboard/maintenance'', Refresh] \<and>
   error_banner (handleSubmit update_succeeds scenario_component) = None"
proof -
  have h: "update_succeeds (build_FormData (formData scenario_component)) =
      Resolved \<lparr>success = True, message = None\<rparr>"
    by (simp add: update_succeeds_def)
  from success_navigates_once [of update_succeeds scenario_component
      "\<lparr>success = True, message = None\<rparr>"] h show ?thesis
    by (simp add: scenario_component_def)
qed

subsection \<open>C6: editing one field\<close>

text \<open>
  Claim C6. For every form state, every field name F among its fields and every new
  string value V, the field edit operation replaces the value of F by V and leaves
  every other field, the order of the fields and the rest of the component unchanged.
\<close>

theorem handleChange_frame:
  assumes "F \<in> set (map fst (formData c))"
  shows "obj_get (formData (handleChange F V c)) F = JStr V \<and>
         (\<forall>G. G \<noteq> F \<longrightarrow> obj_get (formData (handleChange F V c)) G = obj_get (formData c) G) \<and>
         map fst (formData (handleChange F V c)) = map fst (formData c) \<and>
         handleChange F V c = c\<lparr>formData := formData (handleChange F V c)\<rparr>"
  using assms by (simp add: handleChange_def obj_get_obj_set map_fst_obj_set)

theorem handleChange_frame_witness:
  "''cost'' \<in> set (map fst (formData scenario_component)) \<and>
   obj_get (formData (handleChange ''cost'' ''60'' scenario_component)) ''cost'' = JStr ''60'' \<and>
   obj_get (formData (handleChange ''cost'' ''60'' scenario_component)) ''status'' =
     JStr ''completed'' \<and>
   map fst (formData (handleChange ''cost'' ''60'' scenario_component)) = form_fields"
  using handleChange_frame [of "''cost''" scenario_component "''60''"]
  by (simp add: scenario_component_def scenario_form_def form_fields_def)

subsection \<open>C7: a failed submission keeps the form\<close>

text \<open>
  Claim C7. For every submission that ends in failure (a failure result or a thrown
  error), the form state after the submission is the form state before it, and the
  submit control is enabled again. Neither the start of a submission nor the arrival of
  its outcome changes the form state, so edits made while the call is outstanding are
  kept as well.
\<close>

theorem failure_keeps_form:
  assumes "upd (build_FormData (formData c)) = out" and "failed out"
  shows "formData (handleSubmit upd c) = formData c \<and>
         \<not> submit_disabled (handleSubmit upd c) \<and>
         formData (step c SubmitActivated) = formData c \<and>
         formData (step c (CallSettled out)) = formData c"
  using assms formData_step_submit [of c out]
  by (auto simp add: failed_def submit_disabled_def handleSubmit_def handleSubmit_begin_def
      handleSubmit_resume_def Let_def split: outcome.splits)

theorem failure_keeps_form_witness:
  "update_throws (build_FormData (formData (handleChange ''cost'' ''60'' scenario_component))) =
     Rejected ''Failed to fetch'' \<and>
   failed (Rejected ''Failed to fetch'') \<and>
   obj_get (formData (handleSubmit update_throws (handleChange ''cost'' ''60'' scenario_component)))
     ''cost'' = JStr ''60'' \<and>
   \<not> submit_disabled (handleSubmit update_throws (handleChange ''cost'' ''60'' scenario_component))"
proof -
  have h: "update_throws (build_FormData (formData (handleChange ''cost'' ''60'' scenario_component))) =
      Rejected ''Failed to fetch''"
    by (simp add: update_throws_def)
  have f: "failed (Rejected ''Failed to fetch'')"
    by (simp add: failed_def)
  from failure_keeps_form [of update_throws "handleChange ''cost'' ''60'' scenario_component"
      "Rejected ''Failed to fetch''"] h f
  show ?thesis
    by (simp add: handleChange_def obj_get_obj_set)
qed

subsection \<open>C8: the representation of the form state\<close>

text \<open>
  Claim C8. For every input record from which the component is constructed, every field
  of the initial form state other than \<^verbatim>\<open>id\<close> and \<^verbatim>\<open>vehicle_id\<close> is a display string: each
  date field is the ISO calendar string of its UTC date, without time, or empty if the
  field is absent, and the cost is a string; \<^verbatim>\<open>id\<close> and \<^verbatim>\<open>vehicle_id\<close> hold the record's
  numbers as they are. Every field edit stores a string in the field it edits and leaves
  every other field as it is. So, whatever events follow, each field holds its initial
  value until it is edited and the string of its last edit from then on: a field that is
  a string stays a string, and \<^verbatim>\<open>id\<close> and \<^verbatim>\<open>vehicle_id\<close> stay numbers until they are
  edited.
\<close>

theorem form_state_strings:
  assumes "mount host r = Inr c"
  shows "formData c =
           [(''id'', JNum (id' r)),
            (''vehicle_id'', JNum (vehicle_id r)),
            (''service_type'', JStr (text_display (service_type r))),
            (''description'', JStr (text_display (description r))),
            (''date_performed'', JStr (calendar_string host (date_performed r))),
            (''next_due_date'', JStr (calendar_string host (next_due_date r))),
            (''cost'', JStr (cost_display (cost r))),
            (''status'', JStr (status_display (status r))),
            (''service_provider'', JStr (text_display (service_provider r))),
            (''notes'', JStr (text_display (notes' r)))] \<and>
         (if present (date_performed r)
          then is_ISO_calendar_date (calendar_string host (date_performed r))
          else calendar_string host (date_performed r) = []) \<and>
         (if present (next_due_date r)
          then is_ISO_calendar_date (calendar_string host (next_due_date r))
          else calendar_string host (next_due_date r) = []) \<and>
         obj_get (formData c) ''id'' = JNum (id' r) \<and>
         obj_get (formData c) ''vehicle_id'' = JNum (vehicle_id r) \<and>
         map fst (formData c) = form_fields \<and>
         (\<forall>k \<in> set form_fields. k \<noteq> ''id'' \<longrightarrow> k \<noteq> ''vehicle_id'' \<longrightarrow>
            is_display_string (obj_get (formData c) k)) \<and>
         CHR ''T'' \<notin> set (ToString (obj_get (formData c) ''date_performed'')) \<and>
         CHR ''T'' \<notin> set (ToString (obj_get (formData c) ''next_due_date'')) \<and>
         (\<forall>es k. is_display_string (obj_get (formData c) k) \<longrightarrow>
            is_display_string (obj_get (formData (run c es)) k)) \<and>
         (\<forall>es name val. obj_get (formData (handleChange name val (run c es))) name = JStr val) \<and>
         (\<forall>es name val k. k \<noteq> name \<longrightarrow>
            obj_get (formData (handleChange name val (run c es))) k =
              obj_get (formData (run c es)) k) \<and>
         (\<forall>es k. obj_get (formData (run c es)) k =
            (case last_edit k es of None \<Rightarrow> obj_get (formData c) k | Some v \<Rightarrow> JStr v))"
proof -
  obtain dp nd where dp: "date_input host (date_performed r) = Inr dp"
    and nd: "date_input host (next_due_date r) = Inr nd"
    and fd: "formData c =
       [(''id'', JNum (id' r)),
        (''vehicle_id'', JNum (vehicle_id r)),
        (''service_type'', JStr (text_display (service_type r))),
        (''description'', JStr (text_display (description r))),
        (''date_performed'', dp),
        (''next_due_date'', nd),
        (''cost'', JStr (cost_display (cost r))),
        (''status'', JStr (status_display (status r))),
        (''service_provider'', JStr (text_display (service_provider r))),
        (''notes'', JStr (text_display (notes' r)))]"
    using initFormData_Inr [OF mount_formData [OF assms]] by blast
  have cdp: "dp = JStr (calendar_string host (date_performed r))"
    and sdp: "if present (date_performed r)
          then is_ISO_calendar_date (calendar_string host (date_performed r))
          else calendar_string host (date_performed r) = []"
    using date_input_calendar [OF dp] by simp_all
  have cnd: "nd = JStr (calendar_string host (next_due_date r))"
    and snd: "if present (next_due_date r)
          then is_ISO_calendar_date (calendar_string host (next_due_date r))
          else calendar_string host (next_due_date r) = []"
    using date_input_calendar [OF nd] by simp_all
  have tdp: "CHR ''T'' \<notin> set (ToString dp)"
    using date_input_string [OF dp] by simp
  have tnd: "CHR ''T'' \<notin> set (ToString nd)"
    using date_input_string [OF nd] by simp
  have 0: "formData c =
           [(''id'', JNum (id' r)),
            (''vehicle_id'', JNum (vehicle_id r)),
            (''service_type'', JStr (text_display (service_type r))),
            (''description'', JStr (text_display (description r))),
            (''date_performed'', JStr (calendar_string host (date_performed r))),
            (''next_due_date'', JStr (calendar_string host (next_due_date r))),
            (''cost'', JStr (cost_display (cost r))),
            (''status'', JStr (status_display (status r))),
            (''service_provider'', JStr (text_display (service_provider r))),
            (''notes'', JStr (text_display (notes' r)))]"
    using fd cdp cnd by simp
  have 1: "obj_get (formData c) ''id'' = JNum (id' r)"
    by (simp add: fd)
  have 2: "obj_get (formData c) ''vehicle_id'' = JNum (vehicle_id r)"
    by (simp add: fd)
  have 3: "map fst (formData c) = form_fields"
    by (simp add: fd form_fields_def)
  have 4: "\<forall>k \<in> set form_fields. k \<noteq> ''id'' \<longrightarrow> k \<noteq> ''vehicle_id'' \<longrightarrow>
            is_display_string (obj_get (formData c) k)"
    by (simp add: 0 form_fields_def is_display_string_def)
  have 5: "CHR ''T'' \<notin> set (ToString (obj_get (formData c) ''date_performed''))"
    using tdp by (simp add: fd)
  have 6: "CHR ''T'' \<notin> set (ToString (obj_get (formData c) ''next_due_date''))"
    using tnd by (simp add: fd)
  have 7: "\<forall>es k. is_display_string (obj_get (formData c) k) \<longrightarrow>
            is_display_string (obj_get (formData (run c es)) k)"
    using run_keeps_strings [of c] by simp
  have 8: "\<forall>es name val. obj_get (formData (handleChange name val (run c es))) name = JStr val"
    by (simp add: handleChange_def obj_get_obj_set)
  have 9: "\<forall>es name val k. k \<noteq> name \<longrightarrow>
            obj_get (formData (handleChange name val (run c es))) k =
              obj_get (formData (run c es)) k"
    by (simp add: handleChange_def obj_get_obj_set)
  have 10: "\<forall>es k. obj_get (formData (run c es)) k =
            (case last_edit k es of None \<Rightarrow> obj_get (formData c) k | Some v \<Rightarrow> JStr v)"
    by (simp add: obj_get_run)
  show ?thesis
    using 0 sdp snd 1 2 3 4 5 6 7 8 9 10 by (intro conjI)
qed

theorem form_state_strings_witness:
  "mount strict_host scenario_record = Inr scenario_component \<and>
   obj_get (formData scenario_component) ''vehicle_id'' = JNum (Finite False 3 1) \<and>
   is_display_string (obj_get (formData scenario_component) ''cost'') \<and>
   is_display_string
     (obj_get (formData (run scenario_component [Change ''vehicle_id'' ''4''])) ''cost'') \<and>
   obj_get (formData (handleChange ''vehicle_id'' ''4'' (run scenario_component [])))
     ''vehicle_id'' = JStr ''4'' \<and>
   obj_get (formData (run scenario_component [Change ''vehicle_id'' ''4'', SubmitActivated]))
     ''vehicle_id'' = JStr ''4'' \<and>
   obj_get (formData (run scenario_component [Change ''vehicle_id'' ''4'', SubmitActivated]))
     ''id'' = JNum (Finite False 7 1) \<and>
   obj_get (formData scenario_component) ''next_due_date'' = JStr ''2024-05-01'' \<and>
   is_ISO_calendar_date ''2024-05-01''"
proof -
  note th = form_state_strings [OF mount_scenario]
  have "obj_get (formData scenario_component) ''vehicle_id'' = JNum (vehicle_id scenario_record)"
    using th by blast
  then have a: "obj_get (formData scenario_component) ''vehicle_id'' = JNum (Finite False 3 1)"
    by (simp add: scenario_record_def)
  have "obj_get (formData scenario_component) ''id'' = JNum (id' scenario_record)"
    using th by blast
  then have i: "obj_get (formData scenario_component) ''id'' = JNum (Finite False 7 1)"
    by (simp add: scenario_record_def)
  have "\<forall>k \<in> set form_fields. k \<noteq> ''id'' \<longrightarrow> k \<noteq> ''vehicle_id'' \<longrightarrow>
      is_display_string (obj_get (formData scenario_component) k)"
    using th by blast
  then have b: "is_display_string (obj_get (formData scenario_component) ''cost'')"
    by (simp add: form_fields_def)
  have "\<forall>es k. is_display_string (obj_get (formData scenario_component) k) \<longrightarrow>
      is_display_string (obj_get (formData (run scenario_component es)) k)"
    using th by blast
  then have c: "is_display_string
      (obj_get (formData (run scenario_component [Change ''vehicle_id'' ''4''])) ''cost'')"
    using b by blast
  have "\<forall>es name val.
      obj_get (formData (handleChange name val (run scenario_component es))) name = JStr val"
    using th by blast
  then have d: "obj_get (formData (handleChange ''vehicle_id'' ''4'' (run scenario_component [])))
      ''vehicle_id'' = JStr ''4''"
    by blast
  have "\<forall>es k. obj_get (formData (run scenario_component es)) k =
      (case last_edit k es of
         None \<Rightarrow> obj_get (formData scenario_component) k | Some v \<Rightarrow> JStr v)"
    using th by blast
  then have run: "obj_get (formData (run scenario_component
        [Change ''vehicle_id'' ''4'', SubmitActivated])) k =
      (case last_edit k [Change ''vehicle_id'' ''4'', SubmitActivated] of
         None \<Rightarrow> obj_get (formData scenario_component) k | Some v \<Rightarrow> JStr v)" for k
    by blast
  have e: "obj_get (formData (run scenario_component [Change ''vehicle_id'' ''4'', SubmitActivated]))
      ''vehicle_id'' = JStr ''4''"
    by (simp add: run)
  have f: "obj_get (formData (run scenario_component [Change ''vehicle_id'' ''4'', SubmitActivated]))
      ''id'' = JNum (Finite False 7 1)"
    by (simp add: run i)
  have g: "obj_get (formData scenario_component) ''next_due_date'' = JStr ''2024-05-01''"
    by (simp add: scenario_component_def scenario_form_def)
  have cs: "calendar_string strict_host (next_due_date scenario_record) = ''2024-05-01''"
    by code_simp
  have p: "present (next_due_date scenario_record)"
    by code_simp
  have "if present (next_due_date scenario_record)
      then is_ISO_calendar_date (calendar_string strict_host (next_due_date scenario_record))
      else calendar_string strict_host (next_due_date scenario_record) = []"
    using th by blast
  then have h: "is_ISO_calendar_date ''2024-05-01''"
    using p by (simp add: cs)
  show ?thesis
    using mount_scenario a b c d e f g h by (intro conjI)
qed

text \<open>
  The identifier of the initial form state of the scenario is the number 7, not a
  string.
\<close>

theorem form_state_strings_counterexample:
  "mount strict_host scenario_record = Inr scenario_component \<and>
   obj_get (formData scenario_component) ''id'' = JNum (Finite False 7 1) \<and>
   \<not> is_display_string (obj_get (formData scenario_component) ''id'')"
  using mount_scenario
  by (simp add: scenario_component_def scenario_form_def is_display_string_def)

subsection \<open>C9: at most one submission in flight\<close>

text \<open>
  Claim C9. From construction on, under any sequence of edits, activations of the
  submit control and settled calls: at most one update call is outstanding; while one
  is outstanding the submit control is disabled; and activating the disabled submit
  control changes nothing, so that no second call is made.
\<close>

theorem one_submission_in_flight:
  assumes "mount host r = Inr c"
  shows "pending (run c es) \<le> 1 \<and>
         (0 < pending (run c es) \<longrightarrow> submit_disabled (run c es)) \<and>
         (submit_disabled (run c es) \<longrightarrow> step (run c es) SubmitActivated = run c es)"
proof -
  have "pending c \<le> 1" "pending c = 1 \<longrightarrow> isSubmitting c"
    using mount_fresh [OF assms] by simp_all
  then have "pending (run c es) \<le> 1 \<and> (pending (run c es) = 1 \<longrightarrow> isSubmitting (run c es))"
    by (rule run_in_flight)
  then show ?thesis
    by (auto simp add: submit_disabled_def)
qed

text \<open>Two activations in a row on the scenario's form: one call, one outstanding.\<close>

theorem one_submission_in_flight_witness:
  "mount strict_host scenario_record = Inr scenario_component \<and>
   pending (run scenario_component [SubmitActivated, SubmitActivated]) = 1 \<and>
   submit_disabled (run scenario_component [SubmitActivated, SubmitActivated]) \<and>
   length (update_calls (run scenario_component [SubmitActivated, SubmitActivated])) = 1"
  using one_submission_in_flight [of strict_host scenario_record scenario_component
      "[SubmitActivated, SubmitActivated]"] mount_scenario
  by (simp add: run_def submit_disabled_def handleSubmit_begin_def scenario_component_def)

subsection \<open>C10: the submitting state after a success\<close>

text \<open>
  Claim C10. When the outstanding update call of a constructed component returns a
  success result, the submitting state is not cleared: after it, whatever events
  follow, the submit control stays disabled and keeps the label "Updating...". The
  continuation of a submission leaves the submitting state set exactly when it was set
  and the outcome is not a failure: only a failure result and a thrown error clear it.
\<close>

theorem success_stays_submitting:
  assumes "mount host r = Inr c" and "0 < pending (run c es)" and "success res"
  shows "(\<forall>es'. submit_disabled (run (step (run c es) (CallSettled (Resolved res))) es') \<and>
               submit_label (run (step (run c es) (CallSettled (Resolved res))) es') =
                 ''Updating...'') \<and>
         (\<forall>out c'. isSubmitting (handleSubmit_resume out c') = (isSubmitting c' \<and> \<not> failed out))"
proof -
  define c1 where "c1 = run c es"
  define c2 where "c2 = step c1 (CallSettled (Resolved res))"
  have "pending c \<le> 1" "pending c = 1 \<longrightarrow> isSubmitting c"
    using mount_fresh [OF assms(1)] by simp_all
  then have "pending c1 \<le> 1 \<and> (pending c1 = 1 \<longrightarrow> isSubmitting c1)"
    unfolding c1_def by (rule run_in_flight)
  then have c1: "pending c1 = 1" "isSubmitting c1"
    using assms(2) by (auto simp add: c1_def)
  have c2: "isSubmitting c2" "pending c2 = 0"
    using c1 assms(3) by (simp_all add: c2_def handleSubmit_resume_def Let_def)
  have "isSubmitting (run c2 es')" for es'
    using run_stays_submitting [OF c2] by simp
  moreover have "isSubmitting (handleSubmit_resume out c') = (isSubmitting c' \<and> \<not> failed out)"
    for out c'
    by (auto simp add: handleSubmit_resume_def failed_def Let_def split: outcome.splits)
  ultimately show ?thesis
    by (simp add: submit_disabled_def submit_label_def c2_def c1_def)
qed

theorem success_stays_submitting_witness:
  "mount strict_host scenario_record = Inr scenario_component \<and>
   0 < pending (run scenario_component [SubmitActivated]) \<and>
   success \<lparr>success = True, message = None\<rparr> \<and>
   submit_disabled
     (run (step (run scenario_component [SubmitActivated])
        (CallSettled (Resolved \<lparr>success = True, message = None\<rparr>)))
        [SubmitActivated, Change ''cost'' ''60'']) \<and>
   submit_label
     (run (step (run scenario_component [SubmitActivated])
        (CallSettled (Resolved \<lparr>success = True, message = None\<rparr>)))
        [SubmitActivated, Change ''cost'' ''60'']) = ''Updating...''"
proof -
  have p: "0 < pending (run scenario_component [SubmitActivated])"
    by (simp add: run_def submit_disabled_def handleSubmit_begin_def scenario_component_def)
  show ?thesis
    using success_stays_submitting [OF mount_scenario p, of "\<lparr>success = True, message = None\<rparr>"]
      mount_scenario p
    by simp
qed

end
